theory Spec2Isabelle
  imports Complex_Main
begin

section \<open>Atomic model generation of nanodesign, as a shallow embedding\<close>

text \<open>
  The embedding follows \<^verbatim>\<open>nanodesign/converters/pdbcif/utils.py\<close>,
  \<^verbatim>\<open>atomic_types.py\<close> and \<^verbatim>\<open>atomic_structure.py\<close>. Floating point
  numbers are idealised as real numbers: rounding is not modelled. A NumPy array of
  three floats is a triple, a 3x3 array is a triple of rows, and the empty array that
  the code uses as the sentinel of a base without a frame (\<^verbatim>\<open>np.empty(shape=(0, 0))\<close>,
  recognised by \<^verbatim>\<open>size == 0\<close>) is \<open>None\<close>.
\<close>

subsection \<open>Ways a call can end without a result\<close>

text \<open>
  \<open>ValueError\<close>, \<open>IndexError\<close> and \<open>KeyError\<close> are the Python exceptions the code can
  raise (\<^verbatim>\<open>math.acos\<close> outside its domain and NumPy shape mismatches are both
  \<open>ValueError\<close>). \<open>NonFinite\<close> is not an exception: NumPy divides by zero without
  raising and carries on with \<^verbatim>\<open>nan\<close>; the reals have no such value, so the model
  stops at the division and says so.
\<close>

datatype abort = ValueError | IndexError | KeyError | NonFinite

definition and_then :: "abort + 'a \<Rightarrow> ('a \<Rightarrow> abort + 'b) \<Rightarrow> abort + 'b" where
  "and_then m f = (case m of Inl e \<Rightarrow> Inl e | Inr x \<Rightarrow> f x)"

subsection \<open>Vectors and matrices\<close>

type_synonym vec3 = "real \<times> real \<times> real"
type_synonym mat3 = "vec3 \<times> vec3 \<times> vec3"

fun vdot :: "vec3 \<Rightarrow> vec3 \<Rightarrow> real" where
  "vdot (a0, a1, a2) (b0, b1, b2) = a0 * b0 + a1 * b1 + a2 * b2"

fun vadd :: "vec3 \<Rightarrow> vec3 \<Rightarrow> vec3" where
  "vadd (a0, a1, a2) (b0, b1, b2) = (a0 + b0, a1 + b1, a2 + b2)"

fun vscale :: "real \<Rightarrow> vec3 \<Rightarrow> vec3" where
  "vscale k (a0, a1, a2) = (k * a0, k * a1, k * a2)"

fun vdiv :: "vec3 \<Rightarrow> real \<Rightarrow> vec3" where
  "vdiv (a0, a1, a2) k = (a0 / k, a1 / k, a2 / k)"

fun transpose_m :: "mat3 \<Rightarrow> mat3" where
  "transpose_m ((a00, a01, a02), (a10, a11, a12), (a20, a21, a22)) =
     ((a00, a10, a20), (a01, a11, a21), (a02, a12, a22))"

fun mat_vec :: "mat3 \<Rightarrow> vec3 \<Rightarrow> vec3" where
  "mat_vec (r0, r1, r2) v = (vdot r0 v, vdot r1 v, vdot r2 v)"

fun mat_mul :: "mat3 \<Rightarrow> mat3 \<Rightarrow> mat3" where
  "mat_mul (r0, r1, r2) B =
     (case transpose_m B of (c0, c1, c2) \<Rightarrow>
        ((vdot r0 c0, vdot r0 c1, vdot r0 c2),
         (vdot r1 c0, vdot r1 c1, vdot r1 c2),
         (vdot r2 c0, vdot r2 c1, vdot r2 c2)))"

definition identity_m :: mat3 where
  "identity_m = ((1, 0, 0), (0, 1, 0), (0, 0, 1))"

fun trace_m :: "mat3 \<Rightarrow> real" where
  "trace_m ((a00, a01, a02), (a10, a11, a12), (a20, a21, a22)) = a00 + a11 + a22"

fun det_m :: "mat3 \<Rightarrow> real" where
  "det_m ((a00, a01, a02), (a10, a11, a12), (a20, a21, a22)) =
     a00 * (a11 * a22 - a12 * a21) - a01 * (a10 * a22 - a12 * a20)
       + a02 * (a10 * a21 - a11 * a20)"

text \<open>An orthonormal matrix of determinant one.\<close>

definition is_rotation :: "mat3 \<Rightarrow> bool" where
  "is_rotation R = (mat_mul R (transpose_m R) = identity_m \<and> det_m R = 1)"

text \<open>
  \<^verbatim>\<open>np.dot\<close> on arrays that may be the empty sentinel: the product of two (0, 0)
  arrays is a (0, 0) array, a (0, 0) array against a (3, 3) array is a shape mismatch.
\<close>

fun np_dot :: "mat3 option \<Rightarrow> mat3 option \<Rightarrow> abort + mat3 option" where
  "np_dot (Some A) (Some B) = Inr (Some (mat_mul A B))"
| "np_dot None None = Inr None"
| "np_dot _ _ = Inl ValueError"

subsection \<open>utils.py\<close>

definition Rx :: "real \<Rightarrow> mat3" where
  "Rx deg = (let rad = pi * (deg / 180); c = cos rad; s = sin rad
             in ((1, 0, 0), (0, c, - s), (0, s, c)))"

definition Ry :: "real \<Rightarrow> mat3" where
  "Ry deg = (let rad = pi * (deg / 180); c = cos rad; s = sin rad
             in ((c, 0, s), (0, 1, 0), (- s, 0, c)))"

text \<open>\<^verbatim>\<open>math.acos\<close> raises \<open>ValueError\<close> (math domain error) outside [-1, 1].\<close>

definition acos :: "real \<Rightarrow> abort + real" where
  "acos v = (if v < - 1 \<or> 1 < v then Inl ValueError else Inr (arccos v))"

text \<open>
  The axis of \<^verbatim>\<open>_vrrotmat2vec\<close> once the angle is known: the three branches of the
  source, in its order.
\<close>

fun axis_of :: "mat3 \<Rightarrow> real \<Rightarrow> abort + vec3 \<times> real" where
  "axis_of ((r00, r01, r02), (r10, r11, r12), (r20, r21, r22)) angle =
     (if \<bar>angle\<bar> < 0.0001 then Inr ((1, 0, 0), 0)
      else if \<bar>angle - pi\<bar> < 0.0001 then
        (let epsilon = 0.01;
             xx = (r00 + 1) / 2; yy = (r11 + 1) / 2; zz = (r22 + 1) / 2;
             xy = (r01 + r10) / 4; xz = (r02 + r20) / 4; yz = (r12 + r21) / 4
         in if xx > yy \<and> xx > zz then
              (if xx < epsilon then Inr ((0, 0.7071, 0.7071), angle)
               else (let x = sqrt xx in Inr ((x, xy / x, xz / x), angle)))
            else if yy > zz then
              (if yy < epsilon then Inr ((0.7071, 0, 0.7071), angle)
               else (let y = sqrt yy in Inr ((xy / y, y, yz / y), angle)))
            else
              (if zz < epsilon then Inr ((0.7071, 0.7071, 0), angle)
               else (let z = sqrt zz in Inr ((xz / z, yz / z, z), angle))))
      else
        (let n = sqrt ((r21 - r12)\<^sup>2 + (r02 - r20)\<^sup>2 + (r10 - r01)\<^sup>2)
         in if n = 0 then Inl NonFinite
            else Inr (((r21 - r12) / n, (r02 - r20) / n, (r10 - r01) / n), angle)))"

text \<open>
  \<^verbatim>\<open>_vrrotmat2vec\<close>. Reading an entry of the empty array raises \<open>IndexError\<close>. The
  value handed to \<^verbatim>\<open>acos\<close> is the one the source computes, unchanged.
\<close>

fun vrrotmat2vec :: "mat3 option \<Rightarrow> abort + vec3 \<times> real" where
  "vrrotmat2vec None = Inl IndexError"
| "vrrotmat2vec (Some R) =
     and_then (acos ((trace_m R - 1) / 2)) (\<lambda>angle. axis_of R angle)"

text \<open>
  \<^verbatim>\<open>_vrrotvec2mat\<close>. The axis is divided by its norm; a zero axis gives \<^verbatim>\<open>nan\<close>.
\<close>

fun vrrotvec2mat :: "vec3 \<Rightarrow> real \<Rightarrow> abort + mat3" where
  "vrrotvec2mat (a0, a1, a2) theta =
     (let s = sin theta; c = cos theta; t = 1 - c;
          n = sqrt (a0\<^sup>2 + a1\<^sup>2 + a2\<^sup>2)
      in if n = 0 then Inl NonFinite
         else (let x = a0 / n; y = a1 / n; z = a2 / n
               in Inr ((t * x * x + c, t * x * y - s * z, t * x * z + s * y),
                       (t * x * y + s * z, t * y * y + c, t * y * z - s * x),
                       (t * x * z - s * y, t * y * z + s * x, t * z * z + c))))"

text \<open>
  The check at the end of \<^verbatim>\<open>_vrrotmat2vec\<close>: the matrix \<open>M\<close> it rebuilds from the
  axis and the angle it found (the axis is used as it is, not normalised), and whether
  some entry of \<open>R - M\<close> exceeds 0.0001, in which case the source prints
  \<^verbatim>\<open>WARNING: R-M not zero\<close>.
\<close>

fun check_M :: "vec3 \<Rightarrow> real \<Rightarrow> mat3" where
  "check_M (x, y, z) angle =
     (let c = cos angle; s = sin angle; t = 1 - c
      in ((t * x * x + c, t * x * y - z * s, t * x * z + y * s),
          (t * x * y + z * s, t * y * y + c, t * y * z - x * s),
          (t * x * z - y * s, t * y * z + x * s, t * z * z + c)))"

fun entries :: "mat3 \<Rightarrow> real list" where
  "entries ((a00, a01, a02), (a10, a11, a12), (a20, a21, a22)) =
     [a00, a01, a02, a10, a11, a12, a20, a21, a22]"

definition max_abs_diff :: "mat3 \<Rightarrow> mat3 \<Rightarrow> real" where
  "max_abs_diff A B = Max (set (map (\<lambda>(a, b). \<bar>a - b\<bar>) (zip (entries A) (entries B))))"

definition check_warns :: "mat3 \<Rightarrow> vec3 \<Rightarrow> real \<Rightarrow> bool" where
  "check_warns R axis angle = (max_abs_diff R (check_M axis angle) > 0.0001)"

subsection \<open>Python lists\<close>

text \<open>
  Reading and writing a list at an index that is never negative; out of range raises
  \<open>IndexError\<close>. \<open>py_get\<close> takes an index computed from the input data, which may be
  negative: Python then counts from the end.
\<close>

definition get_at :: "'a list \<Rightarrow> nat \<Rightarrow> abort + 'a" where
  "get_at xs i = (if i < length xs then Inr (xs ! i) else Inl IndexError)"

definition set_at :: "'a list \<Rightarrow> nat \<Rightarrow> 'a \<Rightarrow> abort + 'a list" where
  "set_at xs i v = (if i < length xs then Inr (xs[i := v]) else Inl IndexError)"

definition py_index :: "'a list \<Rightarrow> int \<Rightarrow> abort + nat" where
  "py_index xs i =
     (let n = int (length xs); j = (if i < 0 then n + i else i)
      in if 0 \<le> j \<and> j < n then Inr (nat j) else Inl IndexError)"

definition py_get :: "'a list \<Rightarrow> int \<Rightarrow> abort + 'a" where
  "py_get xs i = and_then (py_index xs i) (\<lambda>j. Inr (xs ! j))"

definition py_set :: "'a list \<Rightarrow> int \<Rightarrow> 'a \<Rightarrow> abort + 'a list" where
  "py_set xs i v = and_then (py_index xs i) (\<lambda>j. Inr (xs[j := v]))"

text \<open>\<^verbatim>\<open>str.upper\<close> on the ASCII letters.\<close>

definition upper_char :: "char \<Rightarrow> char" where
  "upper_char c =
     (case map_of (zip ''abcdefghijklmnopqrstuvwxyz'' ''ABCDEFGHIJKLMNOPQRSTUVWXYZ'') c of
        None \<Rightarrow> c
      | Some C \<Rightarrow> C)"

definition upper :: "string \<Rightarrow> string" where
  "upper s = map upper_char s"

subsection \<open>atomic_types.py\<close>

record atom =
  atom_id :: int
  name :: string
  res_name :: string
  chainID :: string
  res_seq_num :: int
  coords :: vec3
  element :: string

text \<open>
  A molecule: its atoms in the order they were added and the chain identifiers seen.
  The \<^verbatim>\<open>residues\<close> index that \<^verbatim>\<open>add_atom\<close> also maintains is left out; nothing in
  the generation reads it.
\<close>

record molecule =
  model_id :: int
  atoms :: "atom list"
  chains :: "string set"

definition Molecule :: "int \<Rightarrow> molecule" where
  "Molecule mid = \<lparr> model_id = mid, atoms = [], chains = {} \<rparr>"

definition add_atom :: "molecule \<Rightarrow> atom \<Rightarrow> molecule" where
  "add_atom m a = m \<lparr> atoms := atoms m @ [a], chains := insert (chainID a) (chains m) \<rparr>"

subsection \<open>The input structure and the strands of atomic_structure.py\<close>

text \<open>
  The classes \<^verbatim>\<open>DnaBase\<close>, \<^verbatim>\<open>DnaStrand\<close> and \<^verbatim>\<open>DnaStructure\<close> are not among the
  source files; the records below hold the attributes the generation reads.
  \<open>base_sindex\<close> is what \<^verbatim>\<open>DnaStrand.get_base_index\<close> returns for the base: its
  position in the tour of its strand.
\<close>

record dna_base =
  base_strand :: int
  base_sindex :: int
  base_seq :: string
  base_h :: int
  base_p :: int

record dna_structure =
  base_connectivity :: "dna_base list"
  helix_axis_coords :: "vec3 list"
  helix_axis_frames :: "mat3 list"
  id_nt :: "(int \<times> int) list"

text \<open>
  \<^verbatim>\<open>AtomicStructureStrand\<close>. \<open>helix_axis_frames ! i\<close> stands for \<^verbatim>\<open>triads[:, :, i]\<close>,
  and the field \<open>translations_of\<close> for the attribute \<^verbatim>\<open>translations\<close>, whose name is
  a keyword of Isabelle.
\<close>

record atomic_strand =
  strand_id :: int
  tour :: "int list"
  is_circular :: bool
  is_scaffold :: bool
  is_main :: "bool list"
  seq :: "string list"
  rotations :: "mat3 option list"
  translations_of :: "vec3 option list"
  strand_chainID :: string

text \<open>
  The arrays \<^verbatim>\<open>AtomicStructureStrand.__init__\<close> creates for a strand of \<open>size\<close> bases;
  the chain identifier, which it formats from the first base of the tour, is taken as
  given.
\<close>

definition AtomicStructureStrand ::
  "int \<Rightarrow> int list \<Rightarrow> bool \<Rightarrow> bool \<Rightarrow> string \<Rightarrow> atomic_strand" where
  "AtomicStructureStrand sid tr circ scaf cid =
     (let size = length tr
      in \<lparr> strand_id = sid, tour = tr, is_circular = circ, is_scaffold = scaf,
           is_main = replicate size False, seq = replicate size ''N'',
           rotations = replicate size None, translations_of = replicate size None,
           strand_chainID = cid \<rparr>)"

subsection \<open>Finding the runs of bases without a frame\<close>

definition count_False :: "bool list \<Rightarrow> nat" where
  "count_False vis = length (filter Not vis)"

lemma count_False_mark:
  "i < length vis \<Longrightarrow> \<not> vis ! i \<Longrightarrow> count_False (vis[i := True]) < count_False vis"
proof (induction vis arbitrary: i)
  case Nil
  then show ?case by simp
next
  case (Cons b bs)
  then show ?case by (cases i) (auto simp: count_False_def)
qed

text \<open>
  The scan in the 5' direction of \<^verbatim>\<open>_find_single_strands\<close>: the inner
  \<^verbatim>\<open>while (not is_visited[i])\<close>, returning the marks and the positions appended.
  The index stays below \<open>num_nt\<close>, so the bound in the guard never fails.
\<close>

function scan_5 :: "bool \<Rightarrow> bool list \<Rightarrow> nat \<Rightarrow> nat list \<Rightarrow> bool list \<times> nat list" where
  "scan_5 circ is_visited i run =
     (if i < length is_visited \<and> \<not> is_visited ! i then
        (let is_visited' = is_visited[i := True]; run' = run @ [i]
         in if i > 0 then scan_5 circ is_visited' (i - 1) run'
            else if circ then scan_5 circ is_visited' (length is_visited - 1) run'
            else (is_visited', run'))
      else (is_visited, run))"
  by pat_completeness auto
termination
  by (relation "measure (\<lambda>(c, vis, i, run). count_False vis)") (auto simp: count_False_mark)

declare scan_5.simps [simp del]

text \<open>The scan in the 3' direction.\<close>

function scan_3 :: "bool \<Rightarrow> bool list \<Rightarrow> nat \<Rightarrow> nat list \<Rightarrow> bool list \<times> nat list" where
  "scan_3 circ is_visited i run =
     (if i < length is_visited \<and> \<not> is_visited ! i then
        (let is_visited' = is_visited[i := True]; run' = run @ [i]
         in if i < length is_visited - 1 then scan_3 circ is_visited' (i + 1) run'
            else if circ then scan_3 circ is_visited' 0 run'
            else (is_visited', run'))
      else (is_visited, run))"
  by pat_completeness auto
termination
  by (relation "measure (\<lambda>(c, vis, i, run). count_False vis)") (auto simp: count_False_mark)

declare scan_3.simps [simp del]

text \<open>\<^verbatim>\<open>is_visited.index(False)\<close>, called only when \<open>False\<close> is in the list.\<close>

fun index_False :: "bool list \<Rightarrow> nat" where
  "index_False [] = 0"
| "index_False (b # bs) = (if b then Suc (index_False bs) else 0)"

lemma scan_5_length: "length (fst (scan_5 c vis i run)) = length vis"
proof (induction c vis i run rule: scan_5.induct)
  case (1 c vis i run)
  show ?case
    by (subst scan_5.simps) (use 1 in \<open>simp add: Let_def\<close>)
qed

lemma scan_3_length: "length (fst (scan_3 c vis i run)) = length vis"
proof (induction c vis i run rule: scan_3.induct)
  case (1 c vis i run)
  show ?case
    by (subst scan_3.simps) (use 1 in \<open>simp add: Let_def\<close>)
qed

lemma scan_5_count_le: "count_False (fst (scan_5 c vis i run)) \<le> count_False vis"
proof (induction c vis i run rule: scan_5.induct)
  case (1 c vis i run)
  show ?case
  proof (cases "i < length vis \<and> \<not> vis ! i")
    case True
    then have lt: "count_False (vis[i := True]) < count_False vis"
      by (simp add: count_False_mark)
    have ih1: "0 < i \<Longrightarrow>
        count_False (fst (scan_5 c (vis[i := True]) (i - 1) (run @ [i]))) \<le> count_False (vis[i := True])"
      using "1.IH"(1) [OF True refl refl] by simp
    have ih2: "\<not> 0 < i \<Longrightarrow> c \<Longrightarrow>
        count_False (fst (scan_5 c (vis[i := True]) (length vis - 1) (run @ [i]))) \<le> count_False (vis[i := True])"
      using "1.IH"(2) [OF True refl refl] by simp
    show ?thesis
      using True lt ih1 ih2 by (subst scan_5.simps) (auto simp: Let_def)
  next
    case False
    then show ?thesis by (subst scan_5.simps) auto
  qed
qed

lemma scan_3_count_le: "count_False (fst (scan_3 c vis i run)) \<le> count_False vis"
proof (induction c vis i run rule: scan_3.induct)
  case (1 c vis i run)
  show ?case
  proof (cases "i < length vis \<and> \<not> vis ! i")
    case True
    then have lt: "count_False (vis[i := True]) < count_False vis"
      by (simp add: count_False_mark)
    have ih1: "i < length vis - 1 \<Longrightarrow>
        count_False (fst (scan_3 c (vis[i := True]) (i + 1) (run @ [i]))) \<le> count_False (vis[i := True])"
      using "1.IH"(1) [OF True refl refl] by simp
    have ih2: "\<not> i < length vis - 1 \<Longrightarrow> c \<Longrightarrow>
        count_False (fst (scan_3 c (vis[i := True]) 0 (run @ [i]))) \<le> count_False (vis[i := True])"
      using "1.IH"(2) [OF True refl refl] by simp
    show ?thesis
      using True lt ih1 ih2 by (subst scan_3.simps) (auto simp: Let_def)
  next
    case False
    then show ?thesis by (subst scan_3.simps) auto
  qed
qed

lemma scan_5_count_less:
  "i < length vis \<Longrightarrow> \<not> vis ! i \<Longrightarrow> count_False (fst (scan_5 c vis i run)) < count_False vis"
  by (subst scan_5.simps)
     (auto simp: Let_def count_False_mark
           intro!: le_less_trans [OF scan_5_count_le count_False_mark])

lemma scan_3_count_less:
  "i < length vis \<Longrightarrow> \<not> vis ! i \<Longrightarrow> count_False (fst (scan_3 c vis i run)) < count_False vis"
  by (subst scan_3.simps)
     (auto simp: Let_def count_False_mark
           intro!: le_less_trans [OF scan_3_count_le count_False_mark])

lemma count_False_unmark_le:
  "count_False (vis[i := False]) \<le> Suc (count_False vis)"
proof (induction vis arbitrary: i)
  case Nil
  then show ?case by (simp add: count_False_def)
next
  case (Cons b bs)
  then show ?case by (cases i) (auto simp: count_False_def)
qed

lemma index_False_lt:
  "False \<in> set vis \<Longrightarrow> index_False vis < length vis \<and> \<not> vis ! index_False vis"
  by (induction vis) auto

text \<open>
  The outer \<^verbatim>\<open>while (True)\<close> of \<^verbatim>\<open>_find_single_strands\<close>. \<^verbatim>\<open>loop\<close> is always the
  index of the list appended last, so both scans append to that list; what the 5' scan
  appended is thrown away by \<^verbatim>\<open>single_strands[-1] = []\<close>, its marks in
  \<^verbatim>\<open>is_visited\<close> stay (only \<open>i_0\<close> is reset), and the list that remains is the one
  the 3' scan builds.
\<close>

function find_loop :: "bool \<Rightarrow> bool list \<Rightarrow> nat list list \<Rightarrow> nat list list" where
  "find_loop circ is_visited single_strands =
     (if False \<in> set is_visited then
        (let i_0 = index_False is_visited;
             vis1 = fst (scan_5 circ is_visited i_0 []);
             vis2 = vis1[i_0 := False];
             scanned = scan_3 circ vis2 i_0 []
         in find_loop circ (fst scanned) (single_strands @ [snd scanned]))
      else single_strands)"
  by pat_completeness auto
termination
proof (relation "measure (\<lambda>(c, vis, ss). count_False vis)", simp, goal_cases)
  case (1 circ vis ss i0 vis1 vis2 scanned)
  have i0: "i0 < length vis" "\<not> vis ! i0"
    using 1 index_False_lt by auto
  have a: "count_False vis1 < count_False vis"
    using 1 i0 scan_5_count_less by simp
  have len: "length vis1 = length vis"
    using 1 scan_5_length by simp
  have b: "count_False vis2 \<le> count_False vis"
    using a count_False_unmark_le [of vis1 i0] 1 by simp
  have "count_False (fst scanned) < count_False vis2"
    using 1 i0 len scan_3_count_less [of i0 vis2] by simp
  then show ?case using b by simp
qed


declare find_loop.simps [simp del]

fun is_set :: "'a option \<Rightarrow> bool" where
  "is_set None = False"
| "is_set (Some _) = True"

definition find_single_strands :: "mat3 option list \<Rightarrow> bool \<Rightarrow> nat list list" where
  "find_single_strands rots circ = find_loop circ (map is_set rots) []"

subsection \<open>Interpolating between two frames\<close>

text \<open>
  Storing into a slot of a preallocated 3x3 or 3-vector array: the empty array does not
  fit (\<open>ValueError\<close>).
\<close>

fun store :: "'a option \<Rightarrow> abort + 'a" where
  "store None = Inl ValueError"
| "store (Some a) = Inr a"

text \<open>
  \<^verbatim>\<open>(d_1*(num_bases+1-j) + d_2*j) / (num_bases+1)\<close>; an empty operand cannot be
  broadcast against a 3-vector, and two empty operands give an empty array.
\<close>

fun blend :: "vec3 option \<Rightarrow> vec3 option \<Rightarrow> nat \<Rightarrow> nat \<Rightarrow> abort + vec3 option" where
  "blend (Some d_1) (Some d_2) num_bases j =
     Inr (Some (vdiv (vadd (vscale (real (num_bases + 1 - j)) d_1) (vscale (real j) d_2))
                  (real (num_bases + 1))))"
| "blend None None num_bases j = Inr None"
| "blend _ _ num_bases j = Inl ValueError"

text \<open>One pass of the loop of \<^verbatim>\<open>_fit_R_d\<close>, for the index \<open>i\<close>.\<close>

definition fit_step ::
  "vec3 \<Rightarrow> real \<Rightarrow> mat3 option \<Rightarrow> vec3 option \<Rightarrow> vec3 option \<Rightarrow> nat \<Rightarrow> nat
     \<Rightarrow> abort + mat3 \<times> vec3" where
  "fit_step axis theta R_1 d_1 d_2 num_bases i =
     (let j = i + 1; angle = (theta * real j) / real (num_bases + 1)
      in and_then (vrrotvec2mat axis angle) (\<lambda>R.
         and_then (np_dot (Some R) R_1) (\<lambda>RR.
         and_then (store RR) (\<lambda>R_fit_i.
         and_then (blend d_1 d_2 num_bases j) (\<lambda>dd.
         and_then (store dd) (\<lambda>d_fit_i. Inr (R_fit_i, d_fit_i)))))))"

fun fit_loop ::
  "vec3 \<Rightarrow> real \<Rightarrow> mat3 option \<Rightarrow> vec3 option \<Rightarrow> vec3 option \<Rightarrow> nat \<Rightarrow> nat list
     \<Rightarrow> abort + (mat3 \<times> vec3) list" where
  "fit_loop axis theta R_1 d_1 d_2 num_bases [] = Inr []"
| "fit_loop axis theta R_1 d_1 d_2 num_bases (i # is) =
     and_then (fit_step axis theta R_1 d_1 d_2 num_bases i) (\<lambda>f.
     and_then (fit_loop axis theta R_1 d_1 d_2 num_bases is) (\<lambda>fs. Inr (f # fs)))"

text \<open>
  \<^verbatim>\<open>_fit_R_d\<close>. The result lists the pairs \<open>(R_fit[:, :, i], d_fit[:, i])\<close> for
  \<open>i = 0, ..., num_bases - 1\<close>. The axis and angle of \<open>R_1\<close> and of \<open>R_2\<close> are computed
  (for the debug log only) before those of \<open>R\<close>, and each of the three calls can raise.
\<close>

definition fit_R_d ::
  "mat3 option \<Rightarrow> vec3 option \<Rightarrow> mat3 option \<Rightarrow> vec3 option \<Rightarrow> nat
     \<Rightarrow> abort + (mat3 \<times> vec3) list" where
  "fit_R_d R_1 d_1 R_2 d_2 num_bases =
     and_then (np_dot R_2 (map_option transpose_m R_1)) (\<lambda>R.
     and_then (vrrotmat2vec R_1) (\<lambda>(axis1, theta1).
     and_then (vrrotmat2vec R_2) (\<lambda>(axis2, theta2).
     and_then (vrrotmat2vec R) (\<lambda>(axis, theta).
       fit_loop axis theta R_1 d_1 d_2 num_bases [0..<num_bases]))))"

subsection \<open>The frames of the single-stranded regions\<close>

text \<open>
  The three arrays \<^verbatim>\<open>_generate_bulge_dof\<close> updates in place: rotations, translations
  and \<^verbatim>\<open>is_main\<close>.
\<close>

type_synonym dof = "mat3 option list \<times> vec3 option list \<times> bool list"

text \<open>
  Whether a region has a free end: \<^verbatim>\<open>strand_pos[0] == 0 or strand_pos[-1] == num_nt-1\<close>.
  Indexing an empty region raises.
\<close>

fun free_end :: "nat \<Rightarrow> nat list \<Rightarrow> abort + bool" where
  "free_end num_nt [] = Inl IndexError"
| "free_end num_nt (p # ps) = Inr (p = 0 \<or> int (last (p # ps)) = int num_nt - 1)"

text \<open>
  The loop that empties the regions with a free end. It runs from the last region to
  the first, so the tail is handled before the head.
\<close>

fun remove_free_ends :: "nat \<Rightarrow> nat list list \<Rightarrow> abort + nat list list" where
  "remove_free_ends num_nt [] = Inr []"
| "remove_free_ends num_nt (strand_pos # rest) =
     and_then (remove_free_ends num_nt rest) (\<lambda>rest'.
     and_then (free_end num_nt strand_pos) (\<lambda>b.
       Inr ((if b then [] else strand_pos) # rest')))"

text \<open>The rotation by \<open>pi\<close> about the z axis the code builds for an anchor that is not main.\<close>

definition vrot :: "abort + mat3" where
  "vrot = vrrotvec2mat (0, 0, 1) pi"

text \<open>
  The anchor frame at position \<open>i\<close>: its rotation, turned by \<open>vrot\<close> when the base is
  not the main one of its pair, and its translation.
\<close>

definition anchor :: "dof \<Rightarrow> nat \<Rightarrow> abort + mat3 option \<times> vec3 option" where
  "anchor st i =
     (case st of (rots, trs, main) \<Rightarrow>
        and_then (get_at rots i) (\<lambda>R.
        and_then (get_at trs i) (\<lambda>d.
        and_then (get_at main i) (\<lambda>m.
          if \<not> m then
            and_then vrot (\<lambda>v. and_then (np_dot R (Some v)) (\<lambda>R'. Inr (R', d)))
          else Inr (R, d)))))"

text \<open>The loop that writes the fitted frames into the positions of a region.\<close>

fun write_frames :: "nat list \<Rightarrow> (mat3 \<times> vec3) list \<Rightarrow> dof \<Rightarrow> abort + dof" where
  "write_frames [] fs st = Inr st"
| "write_frames (k # ks) [] st = Inl IndexError"
| "write_frames (k # ks) ((R, d) # fs) (rots, trs, main) =
     and_then (set_at main k True) (\<lambda>main'.
     and_then (set_at rots k (Some R)) (\<lambda>rots'.
     and_then (set_at trs k (Some d)) (\<lambda>trs'.
       write_frames ks fs (rots', trs', main'))))"

text \<open>
  One pass of the main loop of \<^verbatim>\<open>_generate_bulge_dof\<close>, for a region that is not
  empty. The read of the first anchor comes before the read of the second, and the
  first is taken at \<open>num_nt - 1\<close> when the region starts at 0, the second at 0 when the
  region ends at \<open>num_nt - 1\<close>.
\<close>

definition process_region :: "nat list \<Rightarrow> dof \<Rightarrow> abort + dof" where
  "process_region strand_pos st =
     (let num_nt = length (fst st);
          i_1 = (if hd strand_pos = 0 then num_nt - 1 else hd strand_pos - 1);
          i_2 = (if int (last strand_pos + 1) > int num_nt - 1 then 0
                 else last strand_pos + 1)
      in and_then (anchor st i_1) (\<lambda>(R_1, d_1).
         and_then (anchor st i_2) (\<lambda>(R_2, d_2).
         and_then (fit_R_d R_1 d_1 R_2 d_2 (length strand_pos)) (\<lambda>fit.
           write_frames strand_pos fit st))))"

fun bulge_loop :: "nat list list \<Rightarrow> dof \<Rightarrow> abort + dof" where
  "bulge_loop [] st = Inr st"
| "bulge_loop (strand_pos # rest) st =
     (if strand_pos = [] then bulge_loop rest st
      else and_then (process_region strand_pos st) (\<lambda>st'. bulge_loop rest st'))"

text \<open>\<^verbatim>\<open>_generate_bulge_dof\<close>, returning the three arrays it has updated.\<close>

definition generate_bulge_dof :: "dof \<Rightarrow> bool \<Rightarrow> abort + dof" where
  "generate_bulge_dof st circ =
     (let num_nt = length (fst st);
          single_strands = find_single_strands (fst st) circ
      in and_then (if \<not> circ then remove_free_ends num_nt single_strands
                   else Inr single_strands) (\<lambda>single_strands'.
           bulge_loop single_strands' st))"

subsection \<open>Templates\<close>

text \<open>
  \<^verbatim>\<open>_read_template\<close>, from the atoms of the first molecule that \<^verbatim>\<open>PdbReader\<close> (not
  among the source files) has read from the template file: the atoms of residue 2 of
  chain S, turned and relabelled, are the forward structure, those of residue 2 of
  chain A the reverse structure.
\<close>

definition template_R :: mat3 where
  "template_R = mat_mul (Ry (- 90)) (Rx (- 90))"

fun split_template :: "atom list \<Rightarrow> atom list \<times> atom list \<Rightarrow> atom list \<times> atom list" where
  "split_template [] (forward_struct, reverse_struct) = (forward_struct, reverse_struct)"
| "split_template (a # as) (forward_struct, reverse_struct) =
     (if chainID a = ''S'' \<and> res_seq_num a = 2 then
        split_template as
          (forward_struct @ [a \<lparr> atom_id := - 1, res_seq_num := - 1,
                                coords := mat_vec template_R (coords a), chainID := ''A'' \<rparr>],
           reverse_struct)
      else if chainID a = ''A'' \<and> res_seq_num a = 2 then
        split_template as
          (forward_struct,
           reverse_struct @ [a \<lparr> atom_id := - 1, res_seq_num := - 1,
                                coords := mat_vec template_R (coords a) \<rparr>])
      else split_template as (forward_struct, reverse_struct))"

definition read_template :: "atom list \<Rightarrow> atom list \<times> atom list" where
  "read_template file_atoms = split_template file_atoms ([], [])"

text \<open>The atoms read from the four template files AAA.pdb, GGG.pdb, CCC.pdb and TTT.pdb.\<close>

record template_files =
  file_A :: "atom list"
  file_G :: "atom list"
  file_C :: "atom list"
  file_T :: "atom list"

text \<open>
  Modelled from the spec: \<^verbatim>\<open>DnaBaseNames\<close> (\<^verbatim>\<open>nanodesign/data/parameters.py\<close> is not
  among the source files) names the four sequence letters A, C, G and T.
\<close>

definition DnaBaseNames_A :: string where "DnaBaseNames_A = ''A''"
definition DnaBaseNames_C :: string where "DnaBaseNames_C = ''C''"
definition DnaBaseNames_G :: string where "DnaBaseNames_G = ''G''"
definition DnaBaseNames_T :: string where "DnaBaseNames_T = ''T''"

type_synonym structs = "string \<rightharpoonup> atom list"

text \<open>
  The two dictionaries of \<^verbatim>\<open>_generate_atoms\<close>: the reverse structure of a letter
  comes from the template file of the complementary letter.
\<close>

definition forward_struct_of :: "template_files \<Rightarrow> structs" where
  "forward_struct_of tf =
     [DnaBaseNames_A \<mapsto> fst (read_template (file_A tf)),
      DnaBaseNames_C \<mapsto> fst (read_template (file_C tf)),
      DnaBaseNames_G \<mapsto> fst (read_template (file_G tf)),
      DnaBaseNames_T \<mapsto> fst (read_template (file_T tf))]"

definition reverse_struct_of :: "template_files \<Rightarrow> structs" where
  "reverse_struct_of tf =
     [DnaBaseNames_A \<mapsto> snd (read_template (file_T tf)),
      DnaBaseNames_C \<mapsto> snd (read_template (file_G tf)),
      DnaBaseNames_G \<mapsto> snd (read_template (file_C tf)),
      DnaBaseNames_T \<mapsto> snd (read_template (file_A tf))]"

subsection \<open>Creating the atoms\<close>

text \<open>
  What the logger receives at warning level; the debug messages are not modelled.
  \<open>Not_found i base_name\<close> stands for \<^verbatim>\<open>"base(%d)='%s' not found."\<close>.
\<close>

datatype log_entry = Not_found nat string

text \<open>
  The body of the loop over the atoms of the template: the copy gets the next identity,
  the chain of the strand and the residue number \<open>i + 1\<close>, and its coordinates are
  turned by \<open>R\<close> and moved by \<open>D\<close>; adding the empty array to a 3-vector raises.
\<close>

definition place_atom :: "mat3 \<Rightarrow> vec3 option \<Rightarrow> string \<Rightarrow> nat \<Rightarrow> int \<Rightarrow> atom \<Rightarrow> abort + atom" where
  "place_atom R D chain i first_atomID_out template_atom =
     (case D of
        None \<Rightarrow> Inl ValueError
      | Some d \<Rightarrow>
          Inr (template_atom \<lparr> atom_id := first_atomID_out, chainID := chain,
                               res_seq_num := int i + 1,
                               coords := vadd (mat_vec R (coords template_atom)) d \<rparr>))"

fun atoms_loop ::
  "mat3 \<Rightarrow> vec3 option \<Rightarrow> string \<Rightarrow> nat \<Rightarrow> atom list \<Rightarrow> molecule \<times> int
     \<Rightarrow> abort + molecule \<times> int" where
  "atoms_loop R D chain i [] (mol, first_atomID_out) = Inr (mol, first_atomID_out)"
| "atoms_loop R D chain i (t # ts) (mol, first_atomID_out) =
     and_then (place_atom R D chain i first_atomID_out t) (\<lambda>a.
       atoms_loop R D chain i ts (add_atom mol a, first_atomID_out + 1))"

text \<open>
  The body of the loop over the bases of a strand, for the base at position \<open>i\<close>. The
  state is the molecule, the next atom identity and the warnings logged so far.
\<close>

type_synonym assembly = "molecule \<times> int \<times> log_entry list"

definition base_step ::
  "structs \<Rightarrow> structs \<Rightarrow> atomic_strand \<Rightarrow> nat \<Rightarrow> assembly \<Rightarrow> abort + assembly" where
  "base_step forward_struct reverse_struct strand i st =
     (case st of (mol, first_atomID_out, warnings) \<Rightarrow>
        and_then (get_at (rotations strand) i) (\<lambda>strand_R.
          case strand_R of
            None \<Rightarrow> Inr (mol, first_atomID_out, warnings)
          | Some sR \<Rightarrow>
              and_then (get_at (seq strand) i) (\<lambda>letter.
                let base_name = upper letter
                in case forward_struct base_name of
                     None \<Rightarrow> Inr (mol, first_atomID_out, warnings @ [Not_found i base_name])
                   | Some fwd \<Rightarrow>
                       (let R = mat_mul sR (Ry 180)
                        in and_then (get_at (translations_of strand) i) (\<lambda>D.
                           and_then (get_at (is_main strand) i) (\<lambda>m.
                           and_then (if m then Inr fwd
                                     else (case reverse_struct base_name of
                                             None \<Rightarrow> Inl KeyError
                                           | Some rv \<Rightarrow> Inr rv)) (\<lambda>current_struct.
                           and_then (atoms_loop R D (strand_chainID strand) i current_struct
                                       (mol, first_atomID_out)) (\<lambda>(mol', first').
                             Inr (mol', first', warnings)))))))))"

fun bases_loop ::
  "structs \<Rightarrow> structs \<Rightarrow> atomic_strand \<Rightarrow> nat list \<Rightarrow> assembly \<Rightarrow> abort + assembly" where
  "bases_loop forward_struct reverse_struct strand [] st = Inr st"
| "bases_loop forward_struct reverse_struct strand (i # is) st =
     and_then (base_step forward_struct reverse_struct strand i st) (\<lambda>st'.
       bases_loop forward_struct reverse_struct strand is st')"

text \<open>
  \<^verbatim>\<open>_create_atoms_from_strand\<close>. The first base of the tour is looked up (for the debug
  warnings) before anything else, and both lookups can raise.
\<close>

definition create_atoms_from_strand ::
  "structs \<Rightarrow> structs \<Rightarrow> dna_base list \<Rightarrow> atomic_strand \<Rightarrow> int \<Rightarrow> abort + assembly" where
  "create_atoms_from_strand forward_struct reverse_struct base_conn strand first_atomID_in =
     and_then (get_at (tour strand) 0) (\<lambda>t0.
     and_then (py_get base_conn (t0 - 1)) (\<lambda>base.
       bases_loop forward_struct reverse_struct strand [0..<length (tour strand)]
         (Molecule (strand_id strand), first_atomID_in, [])))"

text \<open>
  The loop over the strands of \<^verbatim>\<open>_generate_atoms\<close>: the identity that one strand
  returns is the first identity of the next.
\<close>

fun strands_loop ::
  "structs \<Rightarrow> structs \<Rightarrow> dna_base list \<Rightarrow> atomic_strand list \<Rightarrow> int
     \<Rightarrow> abort + molecule list \<times> log_entry list" where
  "strands_loop forward_struct reverse_struct base_conn [] first_atomID = Inr ([], [])"
| "strands_loop forward_struct reverse_struct base_conn (strand # rest) first_atomID =
     and_then (create_atoms_from_strand forward_struct reverse_struct base_conn strand
                 first_atomID) (\<lambda>(molecule, first_atomID', warnings).
     and_then (strands_loop forward_struct reverse_struct base_conn rest first_atomID')
       (\<lambda>(molecules, warnings_rest). Inr (molecule # molecules, warnings @ warnings_rest)))"

definition generate_atoms ::
  "template_files \<Rightarrow> dna_base list \<Rightarrow> atomic_strand list
     \<Rightarrow> abort + molecule list \<times> log_entry list" where
  "generate_atoms tf base_conn strands =
     strands_loop (forward_struct_of tf) (reverse_struct_of tf) base_conn strands 1"

subsection \<open>generate_structure\<close>

text \<open>
  The first loop of \<^verbatim>\<open>generate_structure\<close> multiplies the rows of
  \<^verbatim>\<open>helix_axis_coords\<close> by 10, in the array of the input structure itself. The
  result is the array as the loop leaves it, and the exception if a row is missing.
\<close>

fun scale_rows :: "nat list \<Rightarrow> vec3 list \<Rightarrow> vec3 list \<times> abort option" where
  "scale_rows [] base_nodes = (base_nodes, None)"
| "scale_rows (i # is) base_nodes =
     (if i < length base_nodes
      then scale_rows is (base_nodes[i := vscale 10 (base_nodes ! i)])
      else (base_nodes, Some IndexError))"

text \<open>
  The second loop changes the sign of the columns 0 and 2 of every triad, again in
  the array of the input structure.
\<close>

fun flip_0_2 :: "mat3 \<Rightarrow> mat3" where
  "flip_0_2 ((a00, a01, a02), (a10, a11, a12), (a20, a21, a22)) =
     ((- a00, a01, - a02), (- a10, a11, - a12), (- a20, a21, - a22))"

fun flip_frames :: "nat list \<Rightarrow> mat3 list \<Rightarrow> mat3 list \<times> abort option" where
  "flip_frames [] triads = (triads, None)"
| "flip_frames (i # is) triads =
     (if i < length triads
      then flip_frames is (triads[i := flip_0_2 (triads ! i)])
      else (triads, Some IndexError))"

text \<open>Rotation to convert frame [e1 e2 e3] to [-e2 e3 -e1].\<close>

definition rot_mat :: mat3 where
  "rot_mat = ((0, 0, - 1), (- 1, 0, 0), (0, 1, 0))"

text \<open>
  The four assignments for one base of a pair: \<^verbatim>\<open>is_main\<close>, the sequence letter, the
  rotation and the translation of the base at its position in its strand.
\<close>

definition set_base ::
  "atomic_strand list \<Rightarrow> dna_base \<Rightarrow> bool \<Rightarrow> mat3 \<Rightarrow> vec3 \<Rightarrow> abort + atomic_strand list" where
  "set_base strands base main R d =
     and_then (py_index strands (base_strand base)) (\<lambda>si.
       let strand = strands ! si; sindex = base_sindex base
       in and_then (py_set (is_main strand) sindex main) (\<lambda>is_main'.
          and_then (py_set (seq strand) sindex (base_seq base)) (\<lambda>seq'.
          and_then (py_set (rotations strand) sindex (Some R)) (\<lambda>rotations'.
          and_then (py_set (translations_of strand) sindex (Some d)) (\<lambda>translations'.
            Inr (strands[si := strand \<lparr> is_main := is_main', seq := seq',
                                         rotations := rotations',
                                         translations_of := translations' \<rparr>]))))))"

text \<open>
  One pass of the loop over the base-pairing table, for its entry \<open>i\<close>: the first base
  of the entry, then its paired base. Both receive the product of the triad \<open>i\<close> with
  \<open>rot_mat\<close> and the row \<open>i\<close> of the helix axis coordinates. A translation is held by
  value: the row it is taken from is written only by the scaling loop, which runs
  before the rows are taken.
\<close>

definition pair_step :: "dna_structure \<Rightarrow> nat \<Rightarrow> atomic_strand list \<Rightarrow> abort + atomic_strand list" where
  "pair_step ds i strands =
     and_then (get_at (id_nt ds) i) (\<lambda>(base_id1, base_id2).
     and_then (py_get (base_connectivity ds) base_id1) (\<lambda>base1.
     and_then (get_at (helix_axis_frames ds) i) (\<lambda>triad.
     and_then (get_at (helix_axis_coords ds) i) (\<lambda>node.
     and_then (set_base strands base1 True (mat_mul triad rot_mat) node) (\<lambda>strands'.
     and_then (py_get (base_connectivity ds) base_id2) (\<lambda>base2.
       set_base strands' base2 False (mat_mul triad rot_mat) node))))))"

fun pairs_loop :: "dna_structure \<Rightarrow> nat list \<Rightarrow> atomic_strand list \<Rightarrow> abort + atomic_strand list" where
  "pairs_loop ds [] strands = Inr strands"
| "pairs_loop ds (i # is) strands =
     and_then (pair_step ds i strands) (\<lambda>strands'. pairs_loop ds is strands')"

text \<open>
  After the bulges of a strand, the letters still at the placeholder N are read from
  the bases of the tour.
\<close>

fun fill_seq :: "dna_base list \<Rightarrow> int list \<Rightarrow> nat list \<Rightarrow> string list \<Rightarrow> abort + string list" where
  "fill_seq base_conn tr [] sq = Inr sq"
| "fill_seq base_conn tr (i # is) sq =
     (if sq ! i = ''N'' then
        and_then (get_at tr i) (\<lambda>t.
        and_then (py_get base_conn (t - 1)) (\<lambda>base.
          fill_seq base_conn tr is (sq[i := base_seq base])))
      else fill_seq base_conn tr is sq)"

definition bulge_strand :: "dna_base list \<Rightarrow> atomic_strand \<Rightarrow> abort + atomic_strand" where
  "bulge_strand base_conn strand =
     and_then (generate_bulge_dof (rotations strand, translations_of strand, is_main strand)
                 (is_circular strand)) (\<lambda>(rotations', translations', is_main').
     and_then (fill_seq base_conn (tour strand) [0..<length (seq strand)] (seq strand)) (\<lambda>seq'.
       Inr (strand \<lparr> is_main := is_main', seq := seq', rotations := rotations',
                     translations_of := translations' \<rparr>)))"

fun bulges_loop :: "dna_base list \<Rightarrow> atomic_strand list \<Rightarrow> abort + atomic_strand list" where
  "bulges_loop base_conn [] = Inr []"
| "bulges_loop base_conn (strand # rest) =
     and_then (bulge_strand base_conn strand) (\<lambda>strand'.
     and_then (bulges_loop base_conn rest) (\<lambda>rest'. Inr (strand' # rest')))"

text \<open>
  The first part of \<^verbatim>\<open>generate_structure\<close>, up to the end of the loop over the
  base-pairing table: the two loops that change the arrays of the input structure, then
  the frames of the paired bases. The first component of the result is the input
  structure as this part leaves it, whether it completes or raises.
\<close>

definition set_strand_data ::
  "dna_structure \<Rightarrow> atomic_strand list \<Rightarrow> dna_structure \<times> (abort + atomic_strand list)" where
  "set_strand_data ds strands =
     (let n = length (id_nt ds);
          scaled = scale_rows [0..<n] (helix_axis_coords ds);
          ds1 = ds \<lparr> helix_axis_coords := fst scaled \<rparr>
      in case snd scaled of
           Some e \<Rightarrow> (ds1, Inl e)
         | None \<Rightarrow>
             (let flipped = flip_frames [0..<n] (helix_axis_frames ds1);
                  ds2 = ds1 \<lparr> helix_axis_frames := fst flipped \<rparr>
              in case snd flipped of
                   Some e \<Rightarrow> (ds2, Inl e)
                 | None \<Rightarrow> (ds2, pairs_loop ds2 [0..<n] strands)))"

text \<open>
  \<^verbatim>\<open>generate_structure\<close>, on the input structure and the strands of the
  \<^verbatim>\<open>AtomicStructure\<close>. The first component of the result is the input structure as
  the call leaves it, whether it returns or raises; the second is the exception, or the
  strands, the molecules and the warnings.
\<close>

definition generate_structure ::
  "template_files \<Rightarrow> dna_structure \<Rightarrow> atomic_strand list
     \<Rightarrow> dna_structure \<times> (abort + atomic_strand list \<times> molecule list \<times> log_entry list)" where
  "generate_structure tf ds strands =
     (case set_strand_data ds strands of
        (ds2, paired) \<Rightarrow>
          (ds2,
           and_then paired (\<lambda>strands1.
           and_then (bulges_loop (base_connectivity ds2) strands1) (\<lambda>strands2.
           and_then (generate_atoms tf (base_connectivity ds2) strands2)
             (\<lambda>(molecules, warnings). Inr (strands2, molecules, warnings))))))"

section \<open>Properties\<close>

lemma and_then_Inl [simp]: "and_then (Inl e) f = Inl e"
  by (simp add: and_then_def)

lemma and_then_Inr [simp]: "and_then (Inr x) f = f x"
  by (simp add: and_then_def)

lemma and_then_eq_Inr:
  "and_then m f = Inr y \<longleftrightarrow> (\<exists>x. m = Inr x \<and> f x = Inr y)"
  by (cases m) simp_all





subsection \<open>What the assembly loops compute\<close>

text \<open>\<open>ids_from first n\<close> lists the \<open>n\<close> consecutive identities that start at \<open>first\<close>.\<close>

definition ids_from :: "int \<Rightarrow> nat \<Rightarrow> int list" where
  "ids_from first n = map (\<lambda>k. first + int k) [0..<n]"

lemma ids_from_0 [simp]: "ids_from first 0 = []"
  by (simp add: ids_from_def)

lemma ids_from_Suc_front: "ids_from first (Suc n) = first # ids_from (first + 1) n"
proof -
  have "[0..<Suc n] = 0 # map Suc [0..<n]"
    by (simp add: upt_conv_Cons map_Suc_upt del: upt_Suc)
  then show ?thesis
    by (simp add: ids_from_def comp_def del: upt_Suc)
qed

lemma ids_from_append:
  "ids_from first n @ ids_from (first + int n) m = ids_from first (n + m)"
proof (induction n arbitrary: first)
  case 0
  then show ?case by simp
next
  case (Suc n)
  have "ids_from (first + 1) n @ ids_from (first + 1 + int n) m = ids_from (first + 1) (n + m)"
    by (rule Suc.IH)
  then show ?case
    by (simp add: ids_from_Suc_front ac_simps)
qed

lemma place_atom_id:
  "place_atom R D chain i first t = Inr a \<Longrightarrow> atom_id a = first \<and> res_seq_num a = int i + 1"
  by (auto simp: place_atom_def split: option.splits)

lemma atoms_loop_ids:
  "atoms_loop R D chain i ts (mol, first) = Inr (mol', first') \<Longrightarrow>
     \<exists>new. atoms mol' = atoms mol @ new \<and> length new = length ts
        \<and> map atom_id new = ids_from first (length ts) \<and> first' = first + int (length ts)"
proof (induction ts arbitrary: mol first)
  case Nil
  then show ?case by simp
next
  case (Cons t ts)
  from Cons.prems obtain a where
    a: "place_atom R D chain i first t = Inr a" and
    rest: "atoms_loop R D chain i ts (add_atom mol a, first + 1) = Inr (mol', first')"
    by (auto simp: and_then_eq_Inr)
  from Cons.IH [OF rest] obtain new where
    new: "atoms mol' = atoms (add_atom mol a) @ new" "length new = length ts"
      "map atom_id new = ids_from (first + 1) (length ts)" "first' = first + 1 + int (length ts)"
    by auto
  have "atom_id a = first" using place_atom_id [OF a] by simp
  then show ?case
    using new by (intro exI [of _ "a # new"]) (simp add: add_atom_def ids_from_Suc_front)
qed


fun placed :: "mat3 \<Rightarrow> vec3 \<Rightarrow> string \<Rightarrow> nat \<Rightarrow> int \<Rightarrow> atom list \<Rightarrow> atom list" where
  "placed R d chain i first [] = []"
| "placed R d chain i first (t # ts) =
     t \<lparr> atom_id := first, chainID := chain, res_seq_num := int i + 1,
         coords := vadd (mat_vec R (coords t)) d \<rparr> # placed R d chain i (first + 1) ts"

lemma placed_length [simp]: "length (placed R d chain i first ts) = length ts"
  by (induction ts arbitrary: first) simp_all

lemma placed_ids: "map atom_id (placed R d chain i first ts) = ids_from first (length ts)"
  by (induction ts arbitrary: first) (simp_all add: ids_from_Suc_front)

lemma placed_coords:
  "map coords (placed R d chain i first ts) = map (\<lambda>t. vadd (mat_vec R (coords t)) d) ts"
  by (induction ts arbitrary: first) simp_all

lemma placed_res_seq_num:
  "a \<in> set (placed R d chain i first ts) \<Longrightarrow> res_seq_num a = int i + 1 \<and> chainID a = chain"
  by (induction ts arbitrary: first) auto

lemma placed_names:
  "map name (placed R d chain i first ts) = map name ts
   \<and> map element (placed R d chain i first ts) = map element ts
   \<and> map res_name (placed R d chain i first ts) = map res_name ts"
  by (induction ts arbitrary: first) simp_all

lemma atoms_foldl_add_atom [simp]: "atoms (foldl add_atom mol as) = atoms mol @ as"
  by (induction as arbitrary: mol) (simp_all add: add_atom_def)

lemma model_id_foldl_add_atom [simp]: "model_id (foldl add_atom mol as) = model_id mol"
  by (induction as arbitrary: mol) (simp_all add: add_atom_def)

lemma atoms_loop_Some:
  "atoms_loop R (Some d) chain i ts (mol, first) =
     Inr (foldl add_atom mol (placed R d chain i first ts), first + int (length ts))"
  by (induction ts arbitrary: mol first) (simp_all add: place_atom_def)

lemma atoms_loop_None:
  "atoms_loop R None chain i ts (mol, first) =
     (if ts = [] then Inr (mol, first) else Inl ValueError)"
  by (cases ts) (simp_all add: place_atom_def)

text \<open>The atoms and the warnings that the base at position i adds.\<close>

definition base_struct :: "structs \<Rightarrow> structs \<Rightarrow> atomic_strand \<Rightarrow> nat \<Rightarrow> atom list" where
  "base_struct fw rv strand i =
     (case rotations strand ! i of
        None \<Rightarrow> []
      | Some sR \<Rightarrow>
          (case fw (upper (seq strand ! i)) of
             None \<Rightarrow> []
           | Some f \<Rightarrow>
               if is_main strand ! i then f
               else (case rv (upper (seq strand ! i)) of None \<Rightarrow> [] | Some r \<Rightarrow> r)))"

definition base_atoms :: "structs \<Rightarrow> structs \<Rightarrow> atomic_strand \<Rightarrow> nat \<Rightarrow> int \<Rightarrow> atom list" where
  "base_atoms fw rv strand i first =
     (case (rotations strand ! i, translations_of strand ! i) of
        (Some sR, Some d) \<Rightarrow>
          placed (mat_mul sR (Ry 180)) d (strand_chainID strand) i first
            (base_struct fw rv strand i)
      | _ \<Rightarrow> [])"

definition base_warnings :: "structs \<Rightarrow> atomic_strand \<Rightarrow> nat \<Rightarrow> log_entry list" where
  "base_warnings fw strand i =
     (case rotations strand ! i of
        None \<Rightarrow> []
      | Some sR \<Rightarrow>
          (case fw (upper (seq strand ! i)) of
             None \<Rightarrow> [Not_found i (upper (seq strand ! i))]
           | Some f \<Rightarrow> []))"

lemma get_at_eq_Inr: "get_at xs i = Inr x \<longleftrightarrow> i < length xs \<and> x = xs ! i"
  by (auto simp: get_at_def)

lemma base_step_Inr:
  assumes "base_step fw rv strand i (mol, first, w) = Inr (mol', first', w')"
  shows "atoms mol' = atoms mol @ base_atoms fw rv strand i first
       \<and> first' = first + int (length (base_atoms fw rv strand i first))
       \<and> length (base_atoms fw rv strand i first) = length (base_struct fw rv strand i)
       \<and> w' = w @ base_warnings fw strand i
       \<and> model_id mol' = model_id mol"
proof (cases "rotations strand ! i")
  case None
  then show ?thesis
    using assms
    by (auto simp: base_step_def base_atoms_def base_struct_def base_warnings_def
          and_then_eq_Inr get_at_eq_Inr)
next
  case (Some sR)
  show ?thesis
  proof (cases "fw (upper (seq strand ! i))")
    case None
    then show ?thesis
      using assms Some
      by (auto simp: base_step_def base_atoms_def base_struct_def base_warnings_def
            and_then_eq_Inr get_at_eq_Inr split: option.splits)
  next
    case f: (Some f)
    show ?thesis
    proof (cases "translations_of strand ! i")
      case None
      then show ?thesis
        using assms Some f
        by (auto simp: base_step_def base_atoms_def base_struct_def base_warnings_def
              and_then_eq_Inr get_at_eq_Inr atoms_loop_None split: option.splits if_splits)
    next
      case d: (Some d)
      then show ?thesis
        using assms Some f
        by (auto simp: base_step_def base_atoms_def base_struct_def base_warnings_def
              and_then_eq_Inr get_at_eq_Inr atoms_loop_Some split: option.splits if_splits)
    qed
  qed
qed


fun loop_atoms :: "structs \<Rightarrow> structs \<Rightarrow> atomic_strand \<Rightarrow> nat list \<Rightarrow> int \<Rightarrow> atom list" where
  "loop_atoms fw rv strand [] first = []"
| "loop_atoms fw rv strand (i # is) first =
     base_atoms fw rv strand i first
       @ loop_atoms fw rv strand is (first + int (length (base_atoms fw rv strand i first)))"

lemma bases_loop_Inr:
  "bases_loop fw rv strand is (mol, first, w) = Inr (mol', first', w') \<Longrightarrow>
     atoms mol' = atoms mol @ loop_atoms fw rv strand is first
   \<and> first' = first + int (length (loop_atoms fw rv strand is first))
   \<and> w' = w @ concat (map (base_warnings fw strand) is)
   \<and> model_id mol' = model_id mol"
proof (induction "is" arbitrary: mol first w)
  case Nil
  then show ?case by simp
next
  case (Cons i "is")
  from Cons.prems obtain mol1 first1 w1 where
    step: "base_step fw rv strand i (mol, first, w) = Inr (mol1, first1, w1)" and
    rest: "bases_loop fw rv strand is (mol1, first1, w1) = Inr (mol', first', w')"
    by (auto simp: and_then_eq_Inr)
  show ?case
    using base_step_Inr [OF step] Cons.IH [OF rest] by simp
qed

lemma base_atoms_ids:
  "map atom_id (base_atoms fw rv strand i first)
     = ids_from first (length (base_atoms fw rv strand i first))"
  by (auto simp: base_atoms_def placed_ids split: option.splits)

lemma loop_atoms_ids:
  "map atom_id (loop_atoms fw rv strand is first)
     = ids_from first (length (loop_atoms fw rv strand is first))"
proof (induction "is" arbitrary: first)
  case Nil
  then show ?case by simp
next
  case (Cons i "is")
  show ?case
    using Cons.IH [of "first + int (length (base_atoms fw rv strand i first))"]
    by (simp add: base_atoms_ids ids_from_append)
qed

lemma create_atoms_from_strand_Inr:
  assumes "create_atoms_from_strand fw rv base_conn strand first = Inr (mol, first', w)"
  shows "atoms mol = loop_atoms fw rv strand [0..<length (tour strand)] first
       \<and> first' = first + int (length (atoms mol))
       \<and> w = concat (map (base_warnings fw strand) [0..<length (tour strand)])
       \<and> model_id mol = strand_id strand"
  using assms bases_loop_Inr [of fw rv strand "[0..<length (tour strand)]"
      "Molecule (strand_id strand)" first "[]" mol first' w]
  by (auto simp: create_atoms_from_strand_def and_then_eq_Inr Molecule_def)

lemma strands_loop_ids:
  "strands_loop fw rv base_conn strands first = Inr (molecules, warnings) \<Longrightarrow>
     map atom_id (concat (map atoms molecules))
       = ids_from first (length (concat (map atoms molecules)))
   \<and> length molecules = length strands"
proof (induction strands arbitrary: first molecules warnings)
  case Nil
  then show ?case by simp
next
  case (Cons strand rest)
  from Cons.prems obtain mol first1 w ms ws where
    one: "create_atoms_from_strand fw rv base_conn strand first = Inr (mol, first1, w)" and
    more: "strands_loop fw rv base_conn rest first1 = Inr (ms, ws)" and
    res: "molecules = mol # ms"
    by (auto simp: and_then_eq_Inr)
  have a: "map atom_id (atoms mol) = ids_from first (length (atoms mol))"
    and f1: "first1 = first + int (length (atoms mol))"
    using create_atoms_from_strand_Inr [OF one] loop_atoms_ids by auto
  show ?case
    using Cons.IH [OF more] a f1 res by (simp add: ids_from_append)
qed

lemma ids_from_sorted: "sorted_wrt (<) (ids_from first n)"
  by (simp add: ids_from_def sorted_wrt_map sorted_wrt_upt [unfolded] flip: strict_sorted_iff)

subsection \<open>Example inputs\<close>

definition example_atom :: "string \<Rightarrow> string \<Rightarrow> atom" where
  "example_atom chain nm =
     \<lparr> atom_id = 7, name = nm, res_name = ''DA'', chainID = chain, res_seq_num = 2,
       coords = (1, 2, 3), element = ''P'' \<rparr>"

definition example_files :: template_files where
  "example_files =
     \<lparr> file_A = [example_atom ''S'' ''P'', example_atom ''S'' ''OP1'', example_atom ''A'' ''P''],
       file_G = [], file_C = [],
       file_T = [example_atom ''A'' ''N1''] \<rparr>"

definition example_base :: dna_base where
  "example_base = \<lparr> base_strand = 0, base_sindex = 0, base_seq = ''A'', base_h = 0, base_p = 0 \<rparr>"

definition example_strand :: "mat3 option list \<Rightarrow> vec3 option list \<Rightarrow> bool list \<Rightarrow> string list \<Rightarrow> bool \<Rightarrow> atomic_strand" where
  "example_strand rots trs main sq circ =
     \<lparr> strand_id = 0, tour = map (\<lambda>_. 1) rots, is_circular = circ, is_scaffold = True,
       is_main = main, seq = sq, rotations = rots, translations_of = trs,
       strand_chainID = ''sc.0.0'' \<rparr>"

text \<open>Facts about the examples.\<close>

lemma upper_examples [simp]:
  "upper ''A'' = ''A''" "upper ''a'' = ''A''" "upper ''N'' = ''N''" "upper ''x'' = ''X''"
  by (simp_all add: upper_def upper_char_def)

lemma example_forward_A:
  "forward_struct_of example_files ''A'' =
     Some [\<lparr> atom_id = - 1, name = ''P'', res_name = ''DA'', chainID = ''A'', res_seq_num = - 1,
             coords = mat_vec template_R (1, 2, 3), element = ''P'' \<rparr>,
           \<lparr> atom_id = - 1, name = ''OP1'', res_name = ''DA'', chainID = ''A'', res_seq_num = - 1,
             coords = mat_vec template_R (1, 2, 3), element = ''P'' \<rparr>]"
  by (simp add: forward_struct_of_def example_files_def example_atom_def read_template_def
        DnaBaseNames_A_def DnaBaseNames_C_def DnaBaseNames_G_def DnaBaseNames_T_def)

lemma example_forward_X: "forward_struct_of example_files ''X'' = None"
  by (simp add: forward_struct_of_def
        DnaBaseNames_A_def DnaBaseNames_C_def DnaBaseNames_G_def DnaBaseNames_T_def)

lemma example_reverse_A:
  "reverse_struct_of example_files ''A'' =
     Some [\<lparr> atom_id = - 1, name = ''N1'', res_name = ''DA'', chainID = ''A'', res_seq_num = - 1,
             coords = mat_vec template_R (1, 2, 3), element = ''P'' \<rparr>]"
  by (simp add: reverse_struct_of_def example_files_def example_atom_def read_template_def
        DnaBaseNames_A_def DnaBaseNames_C_def DnaBaseNames_G_def DnaBaseNames_T_def)

definition example_strand_1 :: atomic_strand where
  "example_strand_1 =
     example_strand [Some identity_m, Some identity_m] [Some (0, 0, 0), Some (0, 0, 0)]
       [True, True] [''A'', ''x''] False"

definition example_strand_2 :: atomic_strand where
  "example_strand_2 =
     example_strand [None, Some identity_m] [None, Some (5, 0, 0)]
       [False, False] [''N'', ''a''] False"

definition example_strands :: "atomic_strand list" where
  "example_strands = [example_strand_1, example_strand_2]"

lemma example_create_2:
  "\<exists>mol first' w.
     create_atoms_from_strand (forward_struct_of example_files) (reverse_struct_of example_files)
       [example_base] example_strand_2 3 = Inr (mol, first', w)
     \<and> map atom_id (atoms mol) = [3] \<and> map res_seq_num (atoms mol) = [2]"
  by (simp add: example_strand_2_def example_strand_def
        create_atoms_from_strand_def get_at_def py_get_def py_index_def base_step_def
        example_forward_A example_forward_X example_reverse_A Molecule_def add_atom_def
        place_atom_def Let_def upt_rec)

lemma example_generate_atoms:
  "\<exists>molecules warnings.
     generate_atoms example_files [example_base] example_strands = Inr (molecules, warnings)
     \<and> map atom_id (concat (map atoms molecules)) = [1, 2, 3]
     \<and> warnings = [Not_found 1 ''X'']"
  by (simp add: generate_atoms_def example_strands_def example_strand_1_def
        example_strand_2_def example_strand_def
        create_atoms_from_strand_def get_at_def py_get_def py_index_def base_step_def
        example_forward_A example_forward_X example_reverse_A Molecule_def add_atom_def
        place_atom_def Let_def upt_rec)


subsection \<open>Atom identities\<close>

text \<open>
  C3. The identities of the atoms of one run of \<^verbatim>\<open>_generate_atoms\<close>, read molecule
  after molecule in the order of emission, are 1, 2, 3, ... without a gap: the list is
  strictly increasing and has no duplicate, however many strands there are and whatever
  bases are skipped.
\<close>

theorem atom_ids_consecutive:
  assumes "generate_atoms tf base_conn strands = Inr (molecules, warnings)"
  shows "map atom_id (concat (map atoms molecules))
           = map (\<lambda>k. 1 + int k) [0..<length (concat (map atoms molecules))]
         \<and> sorted_wrt (<) (map atom_id (concat (map atoms molecules)))
         \<and> distinct (map atom_id (concat (map atoms molecules)))"
proof -
  have ids: "map atom_id (concat (map atoms molecules))
               = ids_from 1 (length (concat (map atoms molecules)))"
    using assms strands_loop_ids unfolding generate_atoms_def by blast
  have "sorted_wrt (<) (map atom_id (concat (map atoms molecules)))"
    unfolding ids by (rule ids_from_sorted)
  moreover from this have "distinct (map atom_id (concat (map atoms molecules)))"
    using strict_sorted_iff by blast
  ultimately show ?thesis
    using ids by (simp add: ids_from_def)
qed


text \<open>
  An example run: two strands; the first has a base of letter A and a base of the
  unknown letter x, the second a base without a frame and a base that is not main.
\<close>

theorem atom_ids_consecutive_witness:
  "\<exists>molecules warnings.
     generate_atoms example_files [example_base] example_strands = Inr (molecules, warnings)
     \<and> map atom_id (concat (map atoms molecules)) = [1, 2, 3]
     \<and> map atom_id (concat (map atoms molecules))
           = map (\<lambda>k. 1 + int k) [0..<length (concat (map atoms molecules))]
     \<and> sorted_wrt (<) (map atom_id (concat (map atoms molecules)))
     \<and> distinct (map atom_id (concat (map atoms molecules)))"
proof -
  obtain molecules warnings where
    run: "generate_atoms example_files [example_base] example_strands = Inr (molecules, warnings)"
    and ids: "map atom_id (concat (map atoms molecules)) = [1, 2, 3]"
    using example_generate_atoms by auto
  note t = atom_ids_consecutive [OF run]
  show ?thesis
    by (intro exI [of _ molecules] exI [of _ warnings] conjI)
       (rule run ids t [THEN conjunct1] t [THEN conjunct2, THEN conjunct1]
          t [THEN conjunct2, THEN conjunct2])+
qed

subsection \<open>Placing the template atoms\<close>

lemma base_atoms_res:
  "a \<in> set (base_atoms fw rv strand j first) \<Longrightarrow> res_seq_num a = int j + 1"
  by (auto simp: base_atoms_def dest: placed_res_seq_num split: option.splits)

lemma filter_base_atoms:
  "filter (\<lambda>a. res_seq_num a = int i + 1) (base_atoms fw rv strand j first)
     = (if i = j then base_atoms fw rv strand j first else [])"
  by (auto simp: filter_empty_conv dest: base_atoms_res intro!: filter_True)

lemma filter_loop_atoms_notin:
  "i \<notin> set js \<Longrightarrow>
     filter (\<lambda>a. res_seq_num a = int i + 1) (loop_atoms fw rv strand js first) = []"
  by (induction js arbitrary: first) (auto simp: filter_base_atoms)

lemma filter_loop_atoms:
  "distinct js \<Longrightarrow> i \<in> set js \<Longrightarrow>
     \<exists>first_i. filter (\<lambda>a. res_seq_num a = int i + 1) (loop_atoms fw rv strand js first)
        = base_atoms fw rv strand i first_i"
proof (induction js arbitrary: first)
  case Nil
  then show ?case by simp
next
  case (Cons j js)
  show ?case
  proof (cases "i = j")
    case True
    then have "i \<notin> set js" using Cons.prems by simp
    then show ?thesis
      using True by (auto simp: filter_base_atoms filter_loop_atoms_notin)
  next
    case False
    then have "i \<in> set js" "distinct js" using Cons.prems by auto
    from Cons.IH [OF this(2) this(1)] show ?thesis
      using False by (simp add: filter_base_atoms)
  qed
qed

lemma base_atoms_coords:
  "rotations strand ! i = Some R \<Longrightarrow> translations_of strand ! i = Some D \<Longrightarrow>
   map coords (base_atoms fw rv strand i first)
     = map (\<lambda>t. vadd (mat_vec (mat_mul R (Ry 180)) (coords t)) D) (base_struct fw rv strand i)
   \<and> map name (base_atoms fw rv strand i first) = map name (base_struct fw rv strand i)"
  by (simp add: base_atoms_def placed_coords placed_names)

lemma bases_loop_steps:
  "bases_loop fw rv strand js st = Inr st' \<Longrightarrow> i \<in> set js \<Longrightarrow>
     \<exists>s1 s2. base_step fw rv strand i s1 = Inr s2"
proof (induction js arbitrary: st)
  case Nil
  then show ?case by simp
next
  case (Cons j js)
  from Cons.prems obtain st1 where
    s: "base_step fw rv strand j st = Inr st1" and
    r: "bases_loop fw rv strand js st1 = Inr st'"
    by (auto simp: and_then_eq_Inr)
  show ?case
  proof (cases "i = j")
    case True
    then show ?thesis using s by blast
  next
    case False
    then have "i \<in> set js" using Cons.prems by simp
    from Cons.IH [OF r this] show ?thesis .
  qed
qed

lemma base_step_Inr_template:
  assumes "base_step fw rv strand i s1 = Inr s2"
    and "rotations strand ! i = Some R"
    and "fw (upper (seq strand ! i)) = Some f"
  shows "i < length (is_main strand) \<and> i < length (rotations strand)
       \<and> i < length (seq strand) \<and> i < length (translations_of strand)
       \<and> (if is_main strand ! i then base_struct fw rv strand i = f
            else rv (upper (seq strand ! i)) = Some (base_struct fw rv strand i))"
  using assms
  by (cases s1)
     (auto simp: base_step_def base_struct_def and_then_eq_Inr get_at_eq_Inr
           split: option.splits if_splits)

text \<open>
  C6. When \<^verbatim>\<open>_create_atoms_from_strand\<close> returns, a base at position \<open>i\<close> with a
  rotation \<open>R\<close>, a translation \<open>D\<close> and a letter known to the forward dictionary has
  contributed the atoms of residue \<open>i + 1\<close>: they are the atoms of the forward
  structure of the letter when \<^verbatim>\<open>is_main[i]\<close> holds and of the reverse structure
  otherwise, in the order of the template, each at \<open>(R Ry(180)) c + D\<close> for its template
  coordinate \<open>c\<close>.
\<close>

theorem template_atoms_placed:
  assumes run: "create_atoms_from_strand fw rv base_conn strand first = Inr (mol, first', w)"
    and i: "i < length (tour strand)"
    and R: "rotations strand ! i = Some R"
    and D: "translations_of strand ! i = Some D"
    and f: "fw (upper (seq strand ! i)) = Some f"
  shows "\<exists>current_struct.
           (if is_main strand ! i then current_struct = f
            else rv (upper (seq strand ! i)) = Some current_struct)
         \<and> map coords (filter (\<lambda>a. res_seq_num a = int i + 1) (atoms mol))
             = map (\<lambda>t. vadd (mat_vec (mat_mul R (Ry 180)) (coords t)) D) current_struct
         \<and> map name (filter (\<lambda>a. res_seq_num a = int i + 1) (atoms mol))
             = map name current_struct"
proof -
  have in_range: "i \<in> set [0..<length (tour strand)]" using i by simp
  have atoms: "atoms mol = loop_atoms fw rv strand [0..<length (tour strand)] first"
    using create_atoms_from_strand_Inr [OF run] by simp
  obtain first_i where
    fl: "filter (\<lambda>a. res_seq_num a = int i + 1) (atoms mol) = base_atoms fw rv strand i first_i"
    using filter_loop_atoms [OF distinct_upt in_range, of fw rv strand first] atoms by auto
  have "bases_loop fw rv strand [0..<length (tour strand)]
          (Molecule (strand_id strand), first, []) = Inr (mol, first', w)"
    using run by (auto simp: create_atoms_from_strand_def and_then_eq_Inr)
  from bases_loop_steps [OF this in_range]
  obtain s1 s2 where step: "base_step fw rv strand i s1 = Inr s2"
    by blast
  note tmpl = base_step_Inr_template [OF step R f]
  show ?thesis
    using tmpl base_atoms_coords [OF R D, of fw rv first_i] fl
    by (intro exI [of _ "base_struct fw rv strand i"]) simp
qed

theorem template_atoms_placed_witness:
  "\<exists>mol first' w current_struct.
     create_atoms_from_strand (forward_struct_of example_files) (reverse_struct_of example_files)
       [example_base] example_strand_2 3 = Inr (mol, first', w)
     \<and> \<not> is_main example_strand_2 ! 1
     \<and> reverse_struct_of example_files ''A'' = Some current_struct
     \<and> map coords (filter (\<lambda>a. res_seq_num a = 2) (atoms mol))
           = map (\<lambda>t. vadd (mat_vec (mat_mul identity_m (Ry 180)) (coords t)) (5, 0, 0))
               current_struct
     \<and> map name (filter (\<lambda>a. res_seq_num a = 2) (atoms mol)) = map name current_struct"
proof -
  obtain mol first' w where
    run: "create_atoms_from_strand (forward_struct_of example_files)
            (reverse_struct_of example_files) [example_base] example_strand_2 3
          = Inr (mol, first', w)"
    using example_create_2 by auto
  have i: "1 < length (tour example_strand_2)"
    and R: "rotations example_strand_2 ! 1 = Some identity_m"
    and D: "translations_of example_strand_2 ! 1 = Some (5, 0, 0)"
    and m: "\<not> is_main example_strand_2 ! 1"
    and l: "upper (seq example_strand_2 ! 1) = ''A''"
    by (simp_all add: example_strand_2_def example_strand_def)
  have f: "forward_struct_of example_files (upper (seq example_strand_2 ! 1))
             = Some (the (forward_struct_of example_files ''A''))"
    by (simp only: l example_forward_A option.sel)
  from template_atoms_placed [OF run i R D f] m l
  obtain current_struct where
    "reverse_struct_of example_files ''A'' = Some current_struct"
    "map coords (filter (\<lambda>a. res_seq_num a = 2) (atoms mol))
       = map (\<lambda>t. vadd (mat_vec (mat_mul identity_m (Ry 180)) (coords t)) (5, 0, 0))
           current_struct"
    "map name (filter (\<lambda>a. res_seq_num a = 2) (atoms mol)) = map name current_struct"
    by auto
  with run m show ?thesis by blast
qed

subsection \<open>Unknown letters\<close>




subsection \<open>A circular strand without any paired base\<close>

lemma vrot_value: "vrot = Inr ((- 1, 0, 0), (0, - 1, 0), (0, 0, 1))"
  by (simp add: vrot_def Let_def)

lemma scan_5_visited: "i < length vis \<Longrightarrow> vis ! i \<Longrightarrow> scan_5 c vis i run = (vis, run)"
  by (subst scan_5.simps) simp

lemma scan_3_visited: "i < length vis \<Longrightarrow> vis ! i \<Longrightarrow> scan_3 c vis i run = (vis, run)"
  by (subst scan_3.simps) simp

lemma scan_5_down_all:
  "i < length vis \<Longrightarrow> vis ! 0 \<Longrightarrow> (\<forall>j < length vis. i < j \<longrightarrow> vis ! j)
     \<Longrightarrow> (\<forall>j. 0 < j \<and> j \<le> i \<longrightarrow> \<not> vis ! j)
     \<Longrightarrow> fst (scan_5 c vis i run) = replicate (length vis) True"
proof (induction i arbitrary: vis run)
  case 0
  have "vis ! j" if "j < length vis" for j
    using 0 that by (cases "j = 0") auto
  then have "vis = replicate (length vis) True"
    by (simp add: list_eq_iff_nth_eq)
  then show ?case using 0 by (simp add: scan_5_visited)
next
  case (Suc k)
  let ?vis = "vis[Suc k := True]"
  have unv: "\<not> vis ! Suc k" using Suc.prems by simp
  have step: "scan_5 c vis (Suc k) run = scan_5 c ?vis k (run @ [Suc k])"
    using Suc.prems unv by (subst scan_5.simps) (simp add: Let_def)
  have "fst (scan_5 c ?vis k (run @ [Suc k])) = replicate (length ?vis) True"
  proof (rule Suc.IH)
    show "k < length ?vis" using Suc.prems by simp
    show "?vis ! 0" using Suc.prems by simp
    show "\<forall>j<length ?vis. k < j \<longrightarrow> ?vis ! j"
      using Suc.prems by (auto simp: nth_list_update less_Suc_eq_le)
    show "\<forall>j. 0 < j \<and> j \<le> k \<longrightarrow> \<not> ?vis ! j"
      using Suc.prems by (auto simp: nth_list_update)
  qed
  then show ?case using step by simp
qed

lemma scan_5_all_False:
  "fst (scan_5 True (replicate (Suc n) False) 0 run) = replicate (Suc n) True"
proof -
  let ?vis = "(replicate (Suc n) False)[0 := True]"
  have step: "scan_5 True (replicate (Suc n) False) 0 run = scan_5 True ?vis n (run @ [0])"
    by (subst scan_5.simps) (simp add: Let_def)
  have "fst (scan_5 True ?vis n (run @ [0])) = replicate (length ?vis) True"
    by (rule scan_5_down_all) (auto simp: nth_list_update)
  then show ?thesis using step by simp
qed

lemma scan_3_after:
  "scan_3 True ((replicate (Suc n) True)[0 := False]) 0 [] = (replicate (Suc n) True, [0])"
proof -
  have upd: "((replicate (Suc n) True)[0 := False])[0 := True] = replicate (Suc n) True"
    by simp
  show ?thesis
    by (subst scan_3.simps) (simp add: Let_def scan_3_visited del: replicate_Suc, simp)
qed

lemma index_False_replicate: "index_False (replicate (Suc n) False) = 0"
  by simp

lemma find_all_unset:
  "find_single_strands (replicate (Suc n) None) True = [[0]]"
proof -
  have a: "find_loop True (replicate (Suc n) True) [[0]] = [[0]]"
    by (subst find_loop.simps) simp
  have idx: "index_False (replicate (Suc n) False) = 0"
    by simp
  have mem: "False \<in> set (replicate (Suc n) False)"
    by simp
  have "find_loop True (replicate (Suc n) False) []
          = find_loop True (replicate (Suc n) True) [[0]]"
    by (subst find_loop.simps)
       (simp only: mem if_True Let_def idx scan_5_all_False scan_3_after fst_conv snd_conv
          append_Nil)
  then have "find_loop True (replicate (Suc n) False) [] = [[0]]"
    using a by simp
  then show ?thesis
    by (simp add: find_single_strands_def del: replicate_Suc)
qed

text \<open>
  C2 fails on the code. For a circular strand none of whose bases has a frame (the
  arrays as \<^verbatim>\<open>AtomicStructureStrand.__init__\<close> creates them), the 5' scan from
  position 0 wraps around and marks every position, its list is thrown away, and the
  only region found is \<open>[0]\<close>. Its first anchor is the last position, which has no
  frame, so \<^verbatim>\<open>np.dot(R_1, vrot)\<close> raises: no position is resolved.
\<close>

theorem single_stranded_circular_raises:
  "generate_bulge_dof (replicate (Suc n) None, replicate (Suc n) None, replicate (Suc n) False)
     True = Inl ValueError"
  by (simp add: generate_bulge_dof_def find_all_unset process_region_def anchor_def get_at_def
        vrot_value del: replicate_Suc)


text \<open>
  The same happens when only the region that wraps around the origin is without a
  frame: for the circular strand with frames \<open>[unset, R, unset]\<close> the last position is
  in no region and is the unset anchor of the region \<open>[0]\<close>.
\<close>

lemma find_wrapped: "find_single_strands [None, Some identity_m, None] True = [[0]]"
  unfolding find_single_strands_def is_set.simps list.map by code_simp

lemma wrapped_region_circular_raises:
  "generate_bulge_dof ([None, Some identity_m, None], [None, Some (0, 0, 0), None],
                       [False, True, False]) True = Inl ValueError"
  by (simp add: generate_bulge_dof_def find_wrapped process_region_def anchor_def get_at_def
        vrot_value)

subsection \<open>The free ends of a linear strand\<close>

text \<open>A region found in a linear strand is a range of positions.\<close>

lemma scan_3_linear:
  "i \<le> length vis \<Longrightarrow> \<exists>j. snd (scan_3 False vis i run) = run @ [i..<j] \<and> j \<le> length vis"
proof (induction False vis i run rule: scan_3.induct)
  case (1 vis i run)
  show ?case
  proof (cases "i < length vis \<and> \<not> vis ! i")
    case False
    then have "scan_3 False vis i run = (vis, run)"
      by (subst scan_3.simps) auto
    then show ?thesis using 1 by (intro exI [of _ i]) simp
  next
    case True
    show ?thesis
    proof (cases "i < length vis - 1")
      case more: True
      have step: "scan_3 False vis i run = scan_3 False (vis[i := True]) (i + 1) (run @ [i])"
        using True more by (subst scan_3.simps) (simp add: Let_def)
      have "i + 1 \<le> length (vis[i := True])" using True by simp
      from "1.hyps"(1) [OF True refl refl more this]
      obtain j where j: "snd (scan_3 False (vis[i := True]) (i + 1) (run @ [i]))
          = (run @ [i]) @ [i + 1..<j]" "j \<le> length vis"
        by auto
      show ?thesis
      proof (cases "i + 1 \<le> j")
        case True
        then have "[i..<j] = i # [i + 1..<j]" by (simp add: upt_conv_Cons)
        then show ?thesis using j step by (intro exI [of _ j]) simp
      next
        case False
        then show ?thesis using j step \<open>i < length vis \<and> \<not> vis ! i\<close>
          by (intro exI [of _ "i + 1"]) simp
      qed
    next
      case last: False
      have "scan_3 False vis i run = (vis[i := True], run @ [i])"
        using True last by (subst scan_3.simps) (simp add: Let_def)
      then show ?thesis using True by (intro exI [of _ "i + 1"]) simp
    qed
  qed
qed

definition is_range :: "nat \<Rightarrow> nat list \<Rightarrow> bool" where
  "is_range n r = (\<exists>a b. r = [a..<b] \<and> b \<le> n)"

lemma find_loop_ranges:
  "(\<forall>r \<in> set ss. is_range (length vis) r) \<Longrightarrow>
     \<forall>r \<in> set (find_loop False vis ss). is_range (length vis) r"
proof (induction False vis ss rule: find_loop.induct)
  case (1 vis ss)
  show ?case
  proof (cases "False \<in> set vis")
    case False
    then show ?thesis using 1 by (subst find_loop.simps) simp
  next
    case True
    define i_0 where "i_0 = index_False vis"
    define vis1 where "vis1 = fst (scan_5 False vis i_0 [])"
    define vis2 where "vis2 = vis1[i_0 := False]"
    define scanned where "scanned = scan_3 False vis2 i_0 []"
    have len2: "length vis2 = length vis"
      by (simp add: vis2_def vis1_def scan_5_length)
    have len3: "length (fst scanned) = length vis"
      by (simp add: scanned_def scan_3_length len2)
    have i0: "i_0 \<le> length vis2"
      using index_False_lt [OF True] len2 by (simp add: i_0_def)
    from scan_3_linear [OF i0, of "[]"] obtain j where
      "snd scanned = [i_0..<j]" "j \<le> length vis"
      by (auto simp: scanned_def len2)
    then have new: "is_range (length vis) (snd scanned)"
      by (auto simp: is_range_def)
    have step: "find_loop False vis ss = find_loop False (fst scanned) (ss @ [snd scanned])"
      using True by (subst find_loop.simps) (simp add: Let_def i_0_def vis1_def vis2_def scanned_def)
    have "\<forall>r\<in>set (find_loop False (fst scanned) (ss @ [snd scanned])).
            is_range (length (fst scanned)) r"
      using "1.hyps" [OF True i_0_def vis1_def vis2_def scanned_def] "1.prems" new len3
      by simp
    then show ?thesis using step len3 by simp
  qed
qed

lemma find_single_strands_ranges:
  "r \<in> set (find_single_strands rots False) \<Longrightarrow> is_range (length rots) r"
  using find_loop_ranges [of "[]" "map is_set rots"]
  by (simp add: find_single_strands_def)


lemma remove_free_ends_kept:
  "remove_free_ends n runs = Inr runs' \<Longrightarrow> r \<in> set runs' \<Longrightarrow> r \<noteq> [] \<Longrightarrow>
     r \<in> set runs \<and> hd r \<noteq> 0 \<and> int (last r) \<noteq> int n - 1"
proof (induction runs arbitrary: runs')
  case Nil
  then show ?case by simp
next
  case (Cons strand_pos rest)
  from Cons.prems(1) obtain rest' b where
    rest: "remove_free_ends n rest = Inr rest'" and
    b: "free_end n strand_pos = Inr b" and
    res: "runs' = (if b then [] else strand_pos) # rest'"
    by (auto simp: and_then_eq_Inr)
  show ?case
  proof (cases "r \<in> set rest'")
    case True
    then show ?thesis using Cons.IH [OF rest True Cons.prems(3)] by simp
  next
    case False
    then have "r = strand_pos" "\<not> b"
      using Cons.prems res by (auto split: if_splits)
    then show ?thesis using b Cons.prems(3) by (cases strand_pos) auto
  qed
qed

lemma range_avoids_ends:
  assumes "is_range n r" "r \<noteq> []" "hd r \<noteq> 0" "int (last r) \<noteq> int n - 1"
  shows "0 \<notin> set r \<and> n - 1 \<notin> set r"
proof -
  from assms obtain a b where r: "r = [a..<b]" and b: "b \<le> n" and ab: "a < b"
    by (auto simp: is_range_def)
  have "hd r = a" "last r = b - 1" using r ab by (simp_all add: last_upt)
  then show ?thesis using assms r b ab by auto
qed

lemma write_frames_frame:
  "write_frames ks fs (rots, trs, main) = Inr (rots', trs', main') \<Longrightarrow>
     length rots' = length rots \<and> length trs' = length trs \<and> length main' = length main
   \<and> (\<forall>k. k \<notin> set ks \<longrightarrow> rots' ! k = rots ! k \<and> trs' ! k = trs ! k \<and> main' ! k = main ! k)"
proof (induction ks arbitrary: fs rots trs main)
  case Nil
  then show ?case by simp
next
  case (Cons k ks)
  show ?case
  proof (cases fs)
    case Nil
    then show ?thesis using Cons.prems by simp
  next
    case (Cons f fs')
    obtain R d where f: "f = (R, d)" by (cases f)
    from Cons.prems have k: "k < length main" "k < length rots" "k < length trs"
      and rest: "write_frames ks fs' (rots[k := Some R], trs[k := Some d], main[k := True])
                   = Inr (rots', trs', main')"
      unfolding Cons f by (auto simp: and_then_eq_Inr set_at_def split: if_splits)
    from Cons.IH [OF rest] k show ?thesis
      by auto
  qed
qed

lemma process_region_frame:
  assumes "process_region strand_pos (rots, trs, main) = Inr (rots', trs', main')"
  shows "length rots' = length rots \<and> length trs' = length trs \<and> length main' = length main
   \<and> (\<forall>k. k \<notin> set strand_pos \<longrightarrow>
         rots' ! k = rots ! k \<and> trs' ! k = trs ! k \<and> main' ! k = main ! k)"
proof -
  from assms obtain fit where
    "write_frames strand_pos fit (rots, trs, main) = Inr (rots', trs', main')"
    by (auto simp: process_region_def Let_def and_then_eq_Inr)
  then show ?thesis by (rule write_frames_frame)
qed

lemma bulge_loop_frame:
  "bulge_loop runs (rots, trs, main) = Inr (rots', trs', main') \<Longrightarrow>
     length rots' = length rots \<and> length trs' = length trs \<and> length main' = length main
   \<and> (\<forall>k. (\<forall>r \<in> set runs. k \<notin> set r) \<longrightarrow>
         rots' ! k = rots ! k \<and> trs' ! k = trs ! k \<and> main' ! k = main ! k)"
proof (induction runs arbitrary: rots trs main)
  case Nil
  then show ?case by simp
next
  case (Cons strand_pos rest)
  show ?case
  proof (cases "strand_pos = []")
    case True
    then show ?thesis using Cons by simp
  next
    case False
    with Cons.prems obtain rots1 trs1 main1 where
      one: "process_region strand_pos (rots, trs, main) = Inr (rots1, trs1, main1)" and
      more: "bulge_loop rest (rots1, trs1, main1) = Inr (rots', trs', main')"
      by (auto simp: and_then_eq_Inr)
    show ?thesis
      using process_region_frame [OF one] Cons.IH [OF more] by simp
  qed
qed

text \<open>In a linear strand the first and the last position are never written.\<close>

lemma linear_ends_untouched:
  assumes "generate_bulge_dof (rots, trs, main) False = Inr (rots', trs', main')"
    and "k = 0 \<or> k = length rots - 1"
  shows "rots' ! k = rots ! k \<and> trs' ! k = trs ! k \<and> main' ! k = main ! k
       \<and> length rots' = length rots \<and> length trs' = length trs \<and> length main' = length main"
proof -
  from assms(1) obtain runs' where
    rm: "remove_free_ends (length rots) (find_single_strands rots False) = Inr runs'" and
    bl: "bulge_loop runs' (rots, trs, main) = Inr (rots', trs', main')"
    by (auto simp: generate_bulge_dof_def Let_def and_then_eq_Inr)
  have "k \<notin> set r" if "r \<in> set runs'" for r
  proof (cases "r = []")
    case True
    then show ?thesis by simp
  next
    case False
    from remove_free_ends_kept [OF rm that False]
    have "r \<in> set (find_single_strands rots False)" "hd r \<noteq> 0"
      "int (last r) \<noteq> int (length rots) - 1"
      by auto
    from range_avoids_ends [OF find_single_strands_ranges [OF this(1)] False this(2) this(3)]
    show ?thesis using assms(2) by auto
  qed
  then show ?thesis using bulge_loop_frame [OF bl] by simp
qed


lemma base_struct_bound:
  assumes "\<forall>l ts. fw l = Some ts \<longrightarrow> length ts \<le> K"
    and "\<forall>l ts. rv l = Some ts \<longrightarrow> length ts \<le> K"
  shows "length (base_struct fw rv strand i) \<le> K"
  using assms by (auto simp: base_struct_def split: option.splits)

lemma base_atoms_bound:
  assumes "\<forall>l ts. fw l = Some ts \<longrightarrow> length ts \<le> K"
    and "\<forall>l ts. rv l = Some ts \<longrightarrow> length ts \<le> K"
  shows "length (base_atoms fw rv strand i first)
           \<le> (if rotations strand ! i = None then 0 else K)"
  using base_struct_bound [OF assms, of strand i]
  by (auto simp: base_atoms_def split: option.splits)

lemma loop_atoms_bound:
  assumes "\<forall>l ts. fw l = Some ts \<longrightarrow> length ts \<le> K"
    and "\<forall>l ts. rv l = Some ts \<longrightarrow> length ts \<le> K"
  shows "length (loop_atoms fw rv strand js first)
           \<le> K * length (filter (\<lambda>j. rotations strand ! j \<noteq> None) js)"
proof (induction js arbitrary: first)
  case Nil
  then show ?case by simp
next
  case (Cons j js)
  show ?case
    using base_atoms_bound [OF assms, of strand j first]
      Cons.IH [of "first + int (length (base_atoms fw rv strand j first))"]
    by (auto split: if_splits)
qed

lemma bulge_strand_Inr:
  assumes "bulge_strand base_conn strand = Inr strand'"
  shows "tour strand' = tour strand \<and> is_circular strand' = is_circular strand
       \<and> generate_bulge_dof (rotations strand, translations_of strand, is_main strand)
            (is_circular strand)
          = Inr (rotations strand', translations_of strand', is_main strand')"
  using assms by (auto simp: bulge_strand_def and_then_eq_Inr)

text \<open>
  C7. In a strand that is not circular, a base without a frame at the first or at the
  last position of the tour still has no frame after the bulges of the strand have
  been generated; \<^verbatim>\<open>_create_atoms_from_strand\<close> then emits no atom for it, and the
  number of atoms of the strand is strictly below \<open>K\<close> times the number of bases, for
  any positive \<open>K\<close> that bounds the number of atoms of every template structure.
\<close>

theorem free_ends_stay_unset:
  assumes linear: "\<not> is_circular strand"
    and bulge: "bulge_strand base_conn strand = Inr strand'"
    and len: "length (tour strand) = length (rotations strand)"
    and k: "k = 0 \<or> k = length (tour strand) - 1"
    and unpaired: "k < length (tour strand)" "rotations strand ! k = None"
    and run: "create_atoms_from_strand forward_struct reverse_struct base_conn strand' first
                = Inr (mol, first', w)"
    and K: "0 < K" "\<forall>l ts. forward_struct l = Some ts \<longrightarrow> length ts \<le> K"
      "\<forall>l ts. reverse_struct l = Some ts \<longrightarrow> length ts \<le> K"
  shows "rotations strand' ! k = None
       \<and> filter (\<lambda>a. res_seq_num a = int k + 1) (atoms mol) = []
       \<and> length (atoms mol) < K * length (tour strand)"
proof -
  note b = bulge_strand_Inr [OF bulge]
  have dof: "generate_bulge_dof (rotations strand, translations_of strand, is_main strand) False
               = Inr (rotations strand', translations_of strand', is_main strand')"
    using b linear by simp
  have k': "k = 0 \<or> k = length (rotations strand) - 1" using k len by simp
  have unset: "rotations strand' ! k = None"
    using linear_ends_untouched [OF dof k'] unpaired by simp
  have tour: "tour strand' = tour strand" using b by simp
  let ?js = "[0..<length (tour strand)]"
  have in_range: "k \<in> set ?js" using unpaired by simp
  note c = create_atoms_from_strand_Inr [OF run]
  have atoms: "atoms mol = loop_atoms forward_struct reverse_struct strand' ?js first"
    using c tour by simp
  obtain first_k where
    "filter (\<lambda>a. res_seq_num a = int k + 1) (atoms mol)
       = base_atoms forward_struct reverse_struct strand' k first_k"
    using filter_loop_atoms [OF distinct_upt in_range, of forward_struct reverse_struct strand' first]
      atoms by auto
  then have none: "filter (\<lambda>a. res_seq_num a = int k + 1) (atoms mol) = []"
    using unset by (simp add: base_atoms_def)
  define m where "m = length (filter (\<lambda>j. rotations strand' ! j \<noteq> None) ?js)"
  have "m < length ?js"
    unfolding m_def using in_range unset by (intro length_filter_less [of k]) simp_all
  then have "K * m < K * length (tour strand)"
    using K(1) by simp
  moreover have "length (atoms mol) \<le> K * m"
    unfolding m_def atoms by (rule loop_atoms_bound [OF K(2) K(3)])
  ultimately have "length (atoms mol) < K * length (tour strand)"
    by (rule le_less_trans [rotated])
  then show ?thesis using unset none by simp
qed


text \<open>
  An example: a linear strand of four bases, the first without a frame, the third
  between two bases with a frame.
\<close>

definition example_linear :: atomic_strand where
  "example_linear =
     example_strand [None, Some identity_m, None, Some identity_m]
       [None, Some (0, 0, 0), None, Some (10, 0, 0)]
       [False, True, False, True] [''N'', ''A'', ''N'', ''A''] False"

lemma find_example_linear:
  "find_single_strands [None, Some identity_m, None, Some identity_m] False = [[0], [2]]"
  unfolding find_single_strands_def is_set.simps list.map by code_simp

lemma mat_mul_identity [simp]:
  "mat_mul identity_m identity_m = identity_m" "transpose_m identity_m = identity_m"
  by (simp_all add: identity_m_def)

lemma vrrotmat2vec_identity: "vrrotmat2vec (Some identity_m) = Inr ((1, 0, 0), 0)"
  by (simp add: identity_m_def acos_def)

lemma vrrotvec2mat_zero: "vrrotvec2mat (1, 0, 0) 0 = Inr identity_m"
  by (simp add: identity_m_def)

lemma fit_example:
  "fit_R_d (Some identity_m) (Some (0, 0, 0)) (Some identity_m) (Some (10, 0, 0)) (Suc 0)
     = Inr [(identity_m, (5, 0, 0))]"
  by (simp add: fit_R_d_def vrrotmat2vec_identity fit_step_def vrrotvec2mat_zero
        del: vrrotmat2vec.simps vrrotvec2mat.simps)

lemma example_linear_bulge:
  "bulge_strand [example_base] example_linear =
     Inr (example_strand [None, Some identity_m, Some identity_m, Some identity_m]
            [None, Some (0, 0, 0), Some (5, 0, 0), Some (10, 0, 0)]
            [False, True, True, True] [''A'', ''A'', ''A'', ''A''] False)"
  by (simp add: bulge_strand_def example_linear_def example_strand_def generate_bulge_dof_def
        find_example_linear process_region_def anchor_def get_at_def set_at_def fit_example
        py_get_def py_index_def example_base_def upt_rec)


definition example_linear_done :: atomic_strand where
  "example_linear_done =
     example_strand [None, Some identity_m, Some identity_m, Some identity_m]
       [None, Some (0, 0, 0), Some (5, 0, 0), Some (10, 0, 0)]
       [False, True, True, True] [''A'', ''A'', ''A'', ''A''] False"

lemma example_linear_atoms:
  "\<exists>mol first' w.
     create_atoms_from_strand (forward_struct_of example_files) (reverse_struct_of example_files)
       [example_base] example_linear_done 1 = Inr (mol, first', w)
     \<and> length (atoms mol) = 6"
  by (simp add: example_linear_done_def example_strand_def
        create_atoms_from_strand_def get_at_def py_get_def py_index_def base_step_def
        example_forward_A Molecule_def add_atom_def place_atom_def Let_def upt_rec)

lemma example_bounds:
  "forward_struct_of example_files l = Some ts \<longrightarrow> length ts \<le> 2"
  "reverse_struct_of example_files l = Some ts \<longrightarrow> length ts \<le> 2"
  by (auto simp: forward_struct_of_def reverse_struct_of_def example_files_def
        example_atom_def read_template_def DnaBaseNames_A_def DnaBaseNames_C_def
        DnaBaseNames_G_def DnaBaseNames_T_def split: if_splits)

theorem free_ends_stay_unset_witness:
  "\<exists>strand' mol first' w.
     bulge_strand [example_base] example_linear = Inr strand'
     \<and> create_atoms_from_strand (forward_struct_of example_files)
           (reverse_struct_of example_files) [example_base] strand' 1 = Inr (mol, first', w)
     \<and> rotations example_linear ! 0 = None
     \<and> rotations strand' ! 0 = None
     \<and> rotations strand' ! 2 \<noteq> None
     \<and> filter (\<lambda>a. res_seq_num a = 1) (atoms mol) = []
     \<and> length (atoms mol) = 6
     \<and> length (atoms mol) < 2 * length (tour example_linear)"
proof -
  have bulge: "bulge_strand [example_base] example_linear = Inr example_linear_done"
    by (simp only: example_linear_bulge example_linear_done_def)
  obtain mol first' w where
    run: "create_atoms_from_strand (forward_struct_of example_files)
            (reverse_struct_of example_files) [example_base] example_linear_done 1
          = Inr (mol, first', w)"
    and six: "length (atoms mol) = 6"
    using example_linear_atoms by auto
  have linear: "\<not> is_circular example_linear"
    and len: "length (tour example_linear) = length (rotations example_linear)"
    and k: "(0::nat) = 0 \<or> (0::nat) = length (tour example_linear) - 1"
    and unpaired: "0 < length (tour example_linear)" "rotations example_linear ! 0 = None"
    and filled: "rotations example_linear_done ! 2 \<noteq> None"
    by (simp_all add: example_linear_def example_linear_done_def example_strand_def)
  have K: "(0::nat) < 2"
    "\<forall>l ts. forward_struct_of example_files l = Some ts \<longrightarrow> length ts \<le> 2"
    "\<forall>l ts. reverse_struct_of example_files l = Some ts \<longrightarrow> length ts \<le> 2"
    using example_bounds by auto
  note t = free_ends_stay_unset [OF linear bulge len k unpaired run K]
  have t1: "rotations example_linear_done ! 0 = None"
    and t2: "filter (\<lambda>a. res_seq_num a = 1) (atoms mol) = []"
    and t3: "length (atoms mol) < 2 * length (tour example_linear)"
    using t by simp_all
  show ?thesis
    by (intro exI [of _ example_linear_done] exI [of _ mol] exI [of _ first'] exI [of _ w] conjI)
       (rule bulge run unpaired(2) t1 filled t2 six t3)+
qed

subsection \<open>The arrays of the input structure\<close>

lemma scale_rows_nth:
  "distinct js \<Longrightarrow> (\<forall>j \<in> set js. j < length nodes) \<Longrightarrow>
     snd (scale_rows js nodes) = None
   \<and> length (fst (scale_rows js nodes)) = length nodes
   \<and> (\<forall>k < length nodes. fst (scale_rows js nodes) ! k
          = (if k \<in> set js then vscale 10 (nodes ! k) else nodes ! k))"
proof (induction js arbitrary: nodes)
  case Nil
  then show ?case by simp
next
  case (Cons j js)
  let ?nodes = "nodes[j := vscale 10 (nodes ! j)]"
  have "distinct js" "\<forall>i \<in> set js. i < length ?nodes"
    using Cons.prems by simp_all
  from Cons.IH [OF this] Cons.prems show ?case
    by (auto simp: nth_list_update)
qed

lemma flip_frames_nth:
  "distinct js \<Longrightarrow> (\<forall>j \<in> set js. j < length triads) \<Longrightarrow>
     snd (flip_frames js triads) = None
   \<and> length (fst (flip_frames js triads)) = length triads
   \<and> (\<forall>k < length triads. fst (flip_frames js triads) ! k
          = (if k \<in> set js then flip_0_2 (triads ! k) else triads ! k))"
proof (induction js arbitrary: triads)
  case Nil
  then show ?case by simp
next
  case (Cons j js)
  let ?triads = "triads[j := flip_0_2 (triads ! j)]"
  have "distinct js" "\<forall>i \<in> set js. i < length ?triads"
    using Cons.prems by simp_all
  from Cons.IH [OF this] Cons.prems show ?case
    by (auto simp: nth_list_update)
qed

lemma scale_rows_all:
  "scale_rows [0..<length nodes] nodes = (map (vscale 10) nodes, None)"
proof -
  have "distinct [0..<length nodes]" "\<forall>j \<in> set [0..<length nodes]. j < length nodes"
    by simp_all
  note n = scale_rows_nth [OF this]
  have "fst (scale_rows [0..<length nodes] nodes) = map (vscale 10) nodes"
  proof (rule nth_equalityI)
    show "length (fst (scale_rows [0..<length nodes] nodes)) = length (map (vscale 10) nodes)"
      using n by simp
    fix k
    assume "k < length (fst (scale_rows [0..<length nodes] nodes))"
    then have k: "k < length nodes" using n by simp
    then show "fst (scale_rows [0..<length nodes] nodes) ! k = map (vscale 10) nodes ! k"
      using n by simp
  qed
  moreover have "snd (scale_rows [0..<length nodes] nodes) = None"
    using n by simp
  ultimately show ?thesis by (simp add: prod_eq_iff)
qed

lemma flip_frames_all:
  "flip_frames [0..<length triads] triads = (map (flip_0_2) triads, None)"
proof -
  have "distinct [0..<length triads]" "\<forall>j \<in> set [0..<length triads]. j < length triads"
    by simp_all
  note n = flip_frames_nth [OF this]
  have "fst (flip_frames [0..<length triads] triads) = map (flip_0_2) triads"
  proof (rule nth_equalityI)
    show "length (fst (flip_frames [0..<length triads] triads)) = length (map (flip_0_2) triads)"
      using n by simp
    fix k
    assume "k < length (fst (flip_frames [0..<length triads] triads))"
    then have k: "k < length triads" using n by simp
    then show "fst (flip_frames [0..<length triads] triads) ! k = map (flip_0_2) triads ! k"
      using n by simp
  qed
  moreover have "snd (flip_frames [0..<length triads] triads) = None"
    using n by simp
  ultimately show ?thesis by (simp add: prod_eq_iff)
qed

lemma flip_0_2_twice [simp]: "flip_0_2 (flip_0_2 M) = M"
  by (cases M rule: flip_0_2.cases) simp

lemma vscale_twice [simp]: "vscale 10 (vscale 10 v) = vscale 100 v"
  by (cases v rule: prod_cases3) simp

lemma set_strand_data_frame:
  assumes "length (helix_axis_coords ds) = length (id_nt ds)"
    and "length (helix_axis_frames ds) = length (id_nt ds)"
  shows "fst (set_strand_data ds strands)
           = ds \<lparr> helix_axis_coords := map (vscale 10) (helix_axis_coords ds),
                  helix_axis_frames := map flip_0_2 (helix_axis_frames ds) \<rparr>"
    and "snd (set_strand_data ds strands)
           = pairs_loop (ds \<lparr> helix_axis_coords := map (vscale 10) (helix_axis_coords ds),
                              helix_axis_frames := map flip_0_2 (helix_axis_frames ds) \<rparr>)
               [0..<length (id_nt ds)] strands"
  using assms scale_rows_all [of "helix_axis_coords ds"] flip_frames_all [of "helix_axis_frames ds"]
  by (simp_all add: set_strand_data_def Let_def)

text \<open>
  C10. \<^verbatim>\<open>generate_structure\<close> changes the arrays of the input structure: when they
  have one row and one triad for every entry of the base-pairing table, the call leaves
  every helix axis coordinate multiplied by 10 and every triad with the signs of its
  columns 0 and 2 changed, whether it returns or raises. A second call on the structure
  as the first one left it starts from those arrays: it leaves the coordinates
  multiplied by 100 and the triads as they were at the very start, and its loop over
  the pairing table reads these values.
\<close>

theorem generate_structure_changes_input:
  assumes "length (helix_axis_coords ds) = length (id_nt ds)"
    and "length (helix_axis_frames ds) = length (id_nt ds)"
  shows "fst (generate_structure tf ds strands)
           = ds \<lparr> helix_axis_coords := map (vscale 10) (helix_axis_coords ds),
                  helix_axis_frames := map flip_0_2 (helix_axis_frames ds) \<rparr>
       \<and> fst (generate_structure tf (fst (generate_structure tf ds strands)) strands')
           = ds \<lparr> helix_axis_coords := map (vscale 100) (helix_axis_coords ds),
                  helix_axis_frames := helix_axis_frames ds \<rparr>
       \<and> snd (set_strand_data (fst (generate_structure tf ds strands)) strands')
           = pairs_loop (ds \<lparr> helix_axis_coords := map (vscale 100) (helix_axis_coords ds),
                              helix_axis_frames := helix_axis_frames ds \<rparr>)
               [0..<length (id_nt ds)] strands'"
proof -
  let ?ds1 = "ds \<lparr> helix_axis_coords := map (vscale 10) (helix_axis_coords ds),
                    helix_axis_frames := map flip_0_2 (helix_axis_frames ds) \<rparr>"
  have g: "fst (generate_structure tf d s) = fst (set_strand_data d s)" for d s
    by (simp add: generate_structure_def split: prod.splits)
  have one: "fst (generate_structure tf ds strands) = ?ds1"
    using set_strand_data_frame(1) [OF assms] g by simp
  have len: "length (helix_axis_coords ?ds1) = length (id_nt ?ds1)"
    "length (helix_axis_frames ?ds1) = length (id_nt ?ds1)"
    using assms by simp_all
  have "fst (generate_structure tf ?ds1 strands')
          = ds \<lparr> helix_axis_coords := map (vscale 100) (helix_axis_coords ds),
                 helix_axis_frames := helix_axis_frames ds \<rparr>"
    using set_strand_data_frame(1) [OF len, of strands'] g
    by (simp add: comp_def)
  moreover have "snd (set_strand_data ?ds1 strands')
      = pairs_loop (ds \<lparr> helix_axis_coords := map (vscale 100) (helix_axis_coords ds),
                         helix_axis_frames := helix_axis_frames ds \<rparr>)
          [0..<length (id_nt ds)] strands'"
    using set_strand_data_frame(2) [OF len, of strands'] by (simp add: comp_def)
  ultimately show ?thesis using one by simp
qed

definition example_ds :: dna_structure where
  "example_ds =
     \<lparr> base_connectivity =
         [\<lparr> base_strand = 0, base_sindex = 1, base_seq = ''A'', base_h = 0, base_p = 1 \<rparr>,
          \<lparr> base_strand = 1, base_sindex = 0, base_seq = ''T'', base_h = 0, base_p = 1 \<rparr>],
       helix_axis_coords = [(1, 2, 3)],
       helix_axis_frames = [identity_m],
       id_nt = [(0, 1)] \<rparr>"

definition example_fresh_strands :: "atomic_strand list" where
  "example_fresh_strands =
     [AtomicStructureStrand 0 [9, 1] False True ''sc.0.0'',
      AtomicStructureStrand 1 [2] False False ''st.0.1'']"

theorem generate_structure_changes_input_witness:
  "helix_axis_coords (fst (generate_structure example_files example_ds example_fresh_strands))
     = [(10, 20, 30)]
   \<and> helix_axis_frames (fst (generate_structure example_files example_ds example_fresh_strands))
         = [((- 1, 0, 0), (0, 1, 0), (0, 0, - 1))]
   \<and> helix_axis_coords
         (fst (generate_structure example_files
                 (fst (generate_structure example_files example_ds example_fresh_strands))
                 example_fresh_strands))
         = [(100, 200, 300)]
   \<and> helix_axis_frames
         (fst (generate_structure example_files
                 (fst (generate_structure example_files example_ds example_fresh_strands))
                 example_fresh_strands))
         = [((1, 0, 0), (0, 1, 0), (0, 0, 1))]"
proof -
  have len: "length (helix_axis_coords example_ds) = length (id_nt example_ds)"
    "length (helix_axis_frames example_ds) = length (id_nt example_ds)"
    by (simp_all add: example_ds_def)
  note t = generate_structure_changes_input
             [OF len, of example_files example_fresh_strands example_fresh_strands]
  note a = t [THEN conjunct1] and b = t [THEN conjunct2, THEN conjunct1]
  show ?thesis
    by (simp only: b, simp only: a, simp add: example_ds_def identity_m_def)
qed

subsection \<open>The frames of the paired bases\<close>

text \<open>The arrays of a strand have one entry for every base.\<close>

definition aligned :: "atomic_strand \<Rightarrow> bool" where
  "aligned s = (length (is_main s) = length (rotations s)
              \<and> length (seq s) = length (rotations s)
              \<and> length (translations_of s) = length (rotations s))"

text \<open>
  The position that the base-pairing loop addresses for a base identity: the index of
  the strand of the base and the index of the base in the arrays of that strand.
\<close>

definition slot :: "dna_base list \<Rightarrow> atomic_strand list \<Rightarrow> int \<Rightarrow> (nat \<times> nat) option" where
  "slot base_conn strands base_id =
     (case py_get base_conn base_id of
        Inl e \<Rightarrow> None
      | Inr base \<Rightarrow>
          (case py_index strands (base_strand base) of
             Inl e \<Rightarrow> None
           | Inr si \<Rightarrow>
               (case py_index (rotations (strands ! si)) (base_sindex base) of
                  Inl e \<Rightarrow> None
                | Inr k \<Rightarrow> Some (si, k))))"

definition frame_at :: "atomic_strand list \<Rightarrow> nat \<times> nat \<Rightarrow> mat3 option \<times> vec3 option \<times> bool" where
  "frame_at strands p =
     (case p of (s, k) \<Rightarrow>
        (rotations (strands ! s) ! k, translations_of (strands ! s) ! k,
         is_main (strands ! s) ! k))"

definition shape :: "atomic_strand list \<Rightarrow> nat list" where
  "shape strands = map (\<lambda>s. length (rotations s)) strands"

lemma py_index_length: "length xs = length ys \<Longrightarrow> py_index xs i = py_index ys i"
  by (simp add: py_index_def)

lemma py_index_Inr: "py_index xs i = Inr j \<Longrightarrow> j < length xs"
  by (auto simp: py_index_def Let_def split: if_splits)

lemma py_set_Inr: "py_set xs i v = Inr ys \<longleftrightarrow> (\<exists>j. py_index xs i = Inr j \<and> ys = xs[j := v])"
  by (auto simp: py_set_def and_then_eq_Inr)

lemma slot_shape:
  assumes "shape strands' = shape strands"
  shows "slot base_conn strands' base_id = slot base_conn strands base_id"
proof -
  have len: "length strands' = length strands"
    using assms by (metis length_map shape_def)
  have rot: "length (rotations (strands' ! si)) = length (rotations (strands ! si))"
    if "si < length strands" for si
    using assms that len by (metis nth_map shape_def)
  show ?thesis
  proof (cases "py_get base_conn base_id")
    case (Inl e)
    then show ?thesis by (simp add: slot_def)
  next
    case (Inr base)
    note pi = py_index_length [OF len, of "base_strand base"]
    show ?thesis
    proof (cases "py_index strands (base_strand base)")
      case (Inl e)
      then show ?thesis using Inr pi by (simp add: slot_def)
    next
      case si: (Inr si)
      then have "si < length strands" by (rule py_index_Inr)
      from py_index_length [OF rot [OF this], of "base_sindex base"] show ?thesis
        using Inr pi si by (simp add: slot_def)
    qed
  qed
qed

lemma set_base_Inr:
  assumes "set_base strands b m R d = Inr strands'"
    and "\<forall>s \<in> set strands. aligned s"
  shows "\<exists>si k. py_index strands (base_strand b) = Inr si
           \<and> py_index (rotations (strands ! si)) (base_sindex b) = Inr k
           \<and> frame_at strands' (si, k) = (Some R, Some d, m)
           \<and> (\<forall>p. p \<noteq> (si, k) \<longrightarrow> frame_at strands' p = frame_at strands p)
           \<and> shape strands' = shape strands
           \<and> (\<forall>s \<in> set strands'. aligned s)"
proof -
  from assms(1) obtain si where si: "py_index strands (base_strand b) = Inr si"
    by (auto simp: set_base_def and_then_eq_Inr)
  then have si_lt: "si < length strands" by (rule py_index_Inr)
  let ?s = "strands ! si"
  have al: "aligned ?s" using assms(2) si_lt by simp
  from assms(1) si obtain k1 k2 k3 k4 where
    k: "py_index (is_main ?s) (base_sindex b) = Inr k1"
       "py_index (seq ?s) (base_sindex b) = Inr k2"
       "py_index (rotations ?s) (base_sindex b) = Inr k3"
       "py_index (translations_of ?s) (base_sindex b) = Inr k4"
    and res: "strands' = strands[si := ?s \<lparr> is_main := (is_main ?s)[k1 := m],
                seq := (seq ?s)[k2 := base_seq b],
                rotations := (rotations ?s)[k3 := Some R],
                translations_of := (translations_of ?s)[k4 := Some d] \<rparr>]"
    by (auto simp: set_base_def and_then_eq_Inr Let_def py_set_Inr)
  have same: "k1 = k3" "k2 = k3" "k4 = k3"
    using k al
    by (simp_all add: aligned_def py_index_length [of "is_main ?s" "rotations ?s"]
          py_index_length [of "seq ?s" "rotations ?s"]
          py_index_length [of "translations_of ?s" "rotations ?s"])
  have k3: "k3 < length (rotations ?s)" using k(3) by (rule py_index_Inr)
  have f1: "frame_at strands' (si, k3) = (Some R, Some d, m)"
    using res same si_lt k3 al by (simp add: frame_at_def aligned_def)
  have f2: "frame_at strands' p = frame_at strands p" if "p \<noteq> (si, k3)" for p
  proof (cases p)
    case (Pair s j)
    show ?thesis
    proof (cases "s = si")
      case True
      then have "j \<noteq> k3" using that Pair by simp
      then show ?thesis
        using res same si_lt True Pair by (simp add: frame_at_def)
    next
      case False
      then show ?thesis using res Pair by (simp add: frame_at_def)
    qed
  qed
  have sh: "shape strands' = shape strands"
    unfolding shape_def res using si_lt
    by (simp add: map_update list_update_same_conv)
  have al': "\<forall>s \<in> set strands'. aligned s"
  proof
    fix s assume "s \<in> set strands'"
    then have "s \<in> set strands \<or> s = ?s \<lparr> is_main := (is_main ?s)[k1 := m],
                seq := (seq ?s)[k2 := base_seq b],
                rotations := (rotations ?s)[k3 := Some R],
                translations_of := (translations_of ?s)[k4 := Some d] \<rparr>"
      unfolding res using set_update_subset_insert by fastforce
    then show "aligned s" using assms(2) al by (auto simp: aligned_def)
  qed
  show ?thesis using si k(3) f1 f2 sh al' by blast
qed


lemma py_get_Inr: "py_get xs i = Inr x \<longleftrightarrow> (\<exists>j. py_index xs i = Inr j \<and> x = xs ! j)"
  by (auto simp: py_get_def and_then_eq_Inr)

lemma pair_step_Inr:
  assumes "pair_step ds i strands = Inr strands'"
    and "\<forall>s \<in> set strands. aligned s"
  shows "\<exists>p1 p2. i < length (id_nt ds)
           \<and> slot (base_connectivity ds) strands (fst (id_nt ds ! i)) = Some p1
           \<and> slot (base_connectivity ds) strands (snd (id_nt ds ! i)) = Some p2
           \<and> frame_at strands' p2
               = (Some (mat_mul (helix_axis_frames ds ! i) rot_mat),
                  Some (helix_axis_coords ds ! i), False)
           \<and> (p1 \<noteq> p2 \<longrightarrow> frame_at strands' p1
               = (Some (mat_mul (helix_axis_frames ds ! i) rot_mat),
                  Some (helix_axis_coords ds ! i), True))
           \<and> (\<forall>p. p \<noteq> p1 \<and> p \<noteq> p2 \<longrightarrow> frame_at strands' p = frame_at strands p)
           \<and> shape strands' = shape strands
           \<and> (\<forall>s \<in> set strands'. aligned s)"
proof -
  let ?R = "mat_mul (helix_axis_frames ds ! i) rot_mat"
  let ?d = "helix_axis_coords ds ! i"
  obtain id1 id2 where ids: "id_nt ds ! i = (id1, id2)" by (cases "id_nt ds ! i")
  from assms(1) obtain base1 base2 strands1 where
    i: "i < length (id_nt ds)" and
    b1: "py_get (base_connectivity ds) id1 = Inr base1" and
    s1: "set_base strands base1 True ?R ?d = Inr strands1" and
    b2: "py_get (base_connectivity ds) id2 = Inr base2" and
    s2: "set_base strands1 base2 False ?R ?d = Inr strands'"
    by (auto simp: pair_step_def and_then_eq_Inr get_at_eq_Inr ids)
  from set_base_Inr [OF s1 assms(2)] obtain si1 k1 where
    one: "py_index strands (base_strand base1) = Inr si1"
      "py_index (rotations (strands ! si1)) (base_sindex base1) = Inr k1"
      "frame_at strands1 (si1, k1) = (Some ?R, Some ?d, True)"
      "\<forall>p. p \<noteq> (si1, k1) \<longrightarrow> frame_at strands1 p = frame_at strands p"
      "shape strands1 = shape strands" "\<forall>s \<in> set strands1. aligned s"
    by blast
  from set_base_Inr [OF s2 one(6)] obtain si2 k2 where
    two: "py_index strands1 (base_strand base2) = Inr si2"
      "py_index (rotations (strands1 ! si2)) (base_sindex base2) = Inr k2"
      "frame_at strands' (si2, k2) = (Some ?R, Some ?d, False)"
      "\<forall>p. p \<noteq> (si2, k2) \<longrightarrow> frame_at strands' p = frame_at strands1 p"
      "shape strands' = shape strands1" "\<forall>s \<in> set strands'. aligned s"
    by blast
  have p1: "slot (base_connectivity ds) strands id1 = Some (si1, k1)"
    using b1 one(1,2) by (simp add: slot_def)
  have "slot (base_connectivity ds) strands1 id2 = Some (si2, k2)"
    using b2 two(1,2) by (simp add: slot_def)
  then have p2: "slot (base_connectivity ds) strands id2 = Some (si2, k2)"
    using slot_shape [OF one(5)] by simp
  have f1: "(si1, k1) \<noteq> (si2, k2) \<longrightarrow> frame_at strands' (si1, k1) = (Some ?R, Some ?d, True)"
    using one(3) two(4) by simp
  have f0: "\<forall>p. p \<noteq> (si1, k1) \<and> p \<noteq> (si2, k2) \<longrightarrow> frame_at strands' p = frame_at strands p"
    using one(4) two(4) by simp
  have sh: "shape strands' = shape strands"
    using one(5) two(5) by simp
  have q1: "slot (base_connectivity ds) strands (fst (id_nt ds ! i)) = Some (si1, k1)"
    and q2: "slot (base_connectivity ds) strands (snd (id_nt ds ! i)) = Some (si2, k2)"
    using p1 p2 ids by simp_all
  show ?thesis
    by (intro exI [of _ "(si1, k1)"] exI [of _ "(si2, k2)"] conjI)
       (rule i q1 q2 two(3) f1 f0 sh two(6))+
qed

definition table_slots ::
  "dna_base list \<Rightarrow> atomic_strand list \<Rightarrow> (int \<times> int) list \<Rightarrow> (nat \<times> nat) option list" where
  "table_slots base_conn strands table =
     concat (map (\<lambda>(base_id1, base_id2).
                    [slot base_conn strands base_id1, slot base_conn strands base_id2]) table)"

lemma table_slots_Cons:
  "table_slots bc strands (e # table)
     = [slot bc strands (fst e), slot bc strands (snd e)] @ table_slots bc strands table"
  by (simp add: table_slots_def split: prod.splits)

lemma table_slots_shape:
  assumes "shape strands' = shape strands"
  shows "table_slots bc strands' table = table_slots bc strands table"
  unfolding table_slots_def slot_shape [OF assms] ..

lemma pairs_loop_Inr:
  assumes "pairs_loop ds js strands = Inr strands'"
    and "\<forall>s \<in> set strands. aligned s"
    and "distinct (table_slots (base_connectivity ds) strands (map (\<lambda>j. id_nt ds ! j) js))"
  shows "(\<forall>j \<in> set js. \<exists>p1 p2.
            slot (base_connectivity ds) strands (fst (id_nt ds ! j)) = Some p1
          \<and> slot (base_connectivity ds) strands (snd (id_nt ds ! j)) = Some p2
          \<and> frame_at strands' p1
               = (Some (mat_mul (helix_axis_frames ds ! j) rot_mat),
                  Some (helix_axis_coords ds ! j), True)
          \<and> frame_at strands' p2
               = (Some (mat_mul (helix_axis_frames ds ! j) rot_mat),
                  Some (helix_axis_coords ds ! j), False))
       \<and> (\<forall>p. Some p \<notin> set (table_slots (base_connectivity ds) strands
                                (map (\<lambda>j. id_nt ds ! j) js))
              \<longrightarrow> frame_at strands' p = frame_at strands p)
       \<and> shape strands' = shape strands"
  using assms
proof (induction js arbitrary: strands)
  case Nil
  then show ?case by (simp add: table_slots_def)
next
  case (Cons i js)
  let ?bc = "base_connectivity ds"
  let ?tab = "map (\<lambda>j. id_nt ds ! j) js"
  from Cons.prems(1) obtain strands1 where
    step: "pair_step ds i strands = Inr strands1" and
    rest: "pairs_loop ds js strands1 = Inr strands'"
    by (auto simp: and_then_eq_Inr)
  from pair_step_Inr [OF step Cons.prems(2)] obtain p1 p2 where
    s: "slot ?bc strands (fst (id_nt ds ! i)) = Some p1"
       "slot ?bc strands (snd (id_nt ds ! i)) = Some p2"
       "frame_at strands1 p2
          = (Some (mat_mul (helix_axis_frames ds ! i) rot_mat), Some (helix_axis_coords ds ! i), False)"
       "p1 \<noteq> p2 \<longrightarrow> frame_at strands1 p1
          = (Some (mat_mul (helix_axis_frames ds ! i) rot_mat), Some (helix_axis_coords ds ! i), True)"
       "\<forall>p. p \<noteq> p1 \<and> p \<noteq> p2 \<longrightarrow> frame_at strands1 p = frame_at strands p"
       "shape strands1 = shape strands" "\<forall>s \<in> set strands1. aligned s"
    by blast
  have slots: "table_slots ?bc strands (map (\<lambda>j. id_nt ds ! j) (i # js))
                 = [Some p1, Some p2] @ table_slots ?bc strands ?tab"
    using s(1,2) by (simp add: table_slots_Cons)
  have same_tab: "table_slots ?bc strands1 ?tab = table_slots ?bc strands ?tab"
    by (rule table_slots_shape [OF s(6)])
  have d: "p1 \<noteq> p2" "Some p1 \<notin> set (table_slots ?bc strands ?tab)"
    "Some p2 \<notin> set (table_slots ?bc strands ?tab)" "distinct (table_slots ?bc strands ?tab)"
    using Cons.prems(3) unfolding slots by auto
  have d1: "distinct (table_slots ?bc strands1 ?tab)" using d(4) same_tab by simp
  note ih = Cons.IH [OF rest s(7) d1]
  note ihA = ih [THEN conjunct1, rule_format]
  note ihB = ih [THEN conjunct2, THEN conjunct1, rule_format, unfolded same_tab]
  note ihC = ih [THEN conjunct2, THEN conjunct2]
  have keep: "frame_at strands' p = frame_at strands1 p"
    if "Some p \<notin> set (table_slots ?bc strands ?tab)" for p
    using that by (rule ihB)
  have head: "frame_at strands' p1
       = (Some (mat_mul (helix_axis_frames ds ! i) rot_mat), Some (helix_axis_coords ds ! i), True)"
    "frame_at strands' p2
       = (Some (mat_mul (helix_axis_frames ds ! i) rot_mat), Some (helix_axis_coords ds ! i), False)"
    using keep [OF d(2)] keep [OF d(3)] s(3,4) d(1) by simp_all
  have A: "\<exists>q1 q2.
            slot ?bc strands (fst (id_nt ds ! j)) = Some q1
          \<and> slot ?bc strands (snd (id_nt ds ! j)) = Some q2
          \<and> frame_at strands' q1
               = (Some (mat_mul (helix_axis_frames ds ! j) rot_mat),
                  Some (helix_axis_coords ds ! j), True)
          \<and> frame_at strands' q2
               = (Some (mat_mul (helix_axis_frames ds ! j) rot_mat),
                  Some (helix_axis_coords ds ! j), False)"
    if "j \<in> set (i # js)" for j
  proof (cases "j \<in> set js")
    case True
    from ihA [OF True] show ?thesis
      unfolding slot_shape [OF s(6)] .
  next
    case False
    then have j: "j = i" using that by simp
    show ?thesis
      unfolding j by (intro exI [of _ p1] exI [of _ p2] conjI) (rule s(1) s(2) head)+
  qed
  have B: "frame_at strands' p = frame_at strands p"
    if "Some p \<notin> set (table_slots ?bc strands (map (\<lambda>j. id_nt ds ! j) (i # js)))" for p
  proof -
    from that have "Some p \<notin> set (table_slots ?bc strands ?tab)" "p \<noteq> p1" "p \<noteq> p2"
      unfolding slots by auto
    then show ?thesis using keep [of p] s(5) by simp
  qed
  have C: "shape strands' = shape strands" using ihC s(6) by simp
  show ?case
    by (intro conjI ballI allI impI) (erule A, erule B, rule C)
qed


text \<open>A strand whose arrays are as the constructor creates them.\<close>

definition fresh :: "atomic_strand \<Rightarrow> bool" where
  "fresh s = (s = AtomicStructureStrand (strand_id s) (tour s) (is_circular s) (is_scaffold s)
                    (strand_chainID s))"

lemma fresh_arrays:
  assumes "fresh s"
  shows "aligned s" and "k < length (tour s) \<Longrightarrow> rotations s ! k = None"
    and "k < length (tour s) \<Longrightarrow> translations_of s ! k = None"
proof -
  have r: "rotations s = replicate (length (tour s)) None"
    and t: "translations_of s = replicate (length (tour s)) None"
    and m: "is_main s = replicate (length (tour s)) False"
    and q: "seq s = replicate (length (tour s)) ''N''"
    by (subst assms [unfolded fresh_def], simp add: AtomicStructureStrand_def Let_def)+
  show "aligned s" by (simp add: aligned_def r t m q)
  show "k < length (tour s) \<Longrightarrow> rotations s ! k = None" by (simp add: r)
  show "k < length (tour s) \<Longrightarrow> translations_of s ! k = None" by (simp add: t)
qed

text \<open>
  C5. Let the strands be as their constructor creates them, let the input structure
  have one coordinate row and one triad for every entry of the base-pairing table, and
  let the positions that the table addresses be pairwise distinct (a base belongs to
  one pair at most). When the loop over the table completes, for every entry \<open>i\<close> both
  bases of the pair have the same rotation, the triad \<open>i\<close> with the signs of its
  columns 0 and 2 changed times \<open>rot_mat\<close>, and the same translation, 10 times the
  axis coordinate \<open>i\<close>; the first base of the entry has \<^verbatim>\<open>is_main\<close> true and the
  second has it false; and every position that no entry addresses has neither a
  rotation nor a translation.
\<close>

theorem paired_bases_share_frame:
  assumes run: "set_strand_data ds strands = (ds', Inr strands')"
    and lens: "length (helix_axis_coords ds) = length (id_nt ds)"
      "length (helix_axis_frames ds) = length (id_nt ds)"
    and fresh: "\<forall>s \<in> set strands. fresh s"
    and pairs: "distinct (table_slots (base_connectivity ds) strands (id_nt ds))"
  shows "(\<forall>i < length (id_nt ds). \<exists>p1 p2.
            slot (base_connectivity ds) strands (fst (id_nt ds ! i)) = Some p1
          \<and> slot (base_connectivity ds) strands (snd (id_nt ds ! i)) = Some p2
          \<and> frame_at strands' p1
               = (Some (mat_mul (flip_0_2 (helix_axis_frames ds ! i)) rot_mat),
                  Some (vscale 10 (helix_axis_coords ds ! i)), True)
          \<and> frame_at strands' p2
               = (Some (mat_mul (flip_0_2 (helix_axis_frames ds ! i)) rot_mat),
                  Some (vscale 10 (helix_axis_coords ds ! i)), False))
       \<and> (\<forall>s k. s < length strands \<and> k < length (tour (strands ! s))
                \<and> Some (s, k) \<notin> set (table_slots (base_connectivity ds) strands (id_nt ds))
              \<longrightarrow> rotations (strands' ! s) ! k = None
                \<and> translations_of (strands' ! s) ! k = None)"
proof -
  let ?ds2 = "ds \<lparr> helix_axis_coords := map (vscale 10) (helix_axis_coords ds),
                    helix_axis_frames := map flip_0_2 (helix_axis_frames ds) \<rparr>"
  let ?n = "length (id_nt ds)"
  have loop: "pairs_loop ?ds2 [0..<?n] strands = Inr strands'"
    using set_strand_data_frame(2) [OF lens, of strands] run by simp
  have al: "\<forall>s \<in> set strands. aligned s"
    using fresh fresh_arrays(1) by blast
  have tab: "map (\<lambda>j. id_nt ?ds2 ! j) [0..<?n] = id_nt ds"
    by (simp add: map_nth)
  have d: "distinct (table_slots (base_connectivity ?ds2) strands
                      (map (\<lambda>j. id_nt ?ds2 ! j) [0..<?n]))"
    unfolding tab using pairs by simp
  note r = pairs_loop_Inr [OF loop al d]
  note rA = r [THEN conjunct1, rule_format]
  note rB = r [THEN conjunct2, THEN conjunct1, rule_format, unfolded tab]
  have A: "\<exists>p1 p2.
            slot (base_connectivity ds) strands (fst (id_nt ds ! i)) = Some p1
          \<and> slot (base_connectivity ds) strands (snd (id_nt ds ! i)) = Some p2
          \<and> frame_at strands' p1
               = (Some (mat_mul (flip_0_2 (helix_axis_frames ds ! i)) rot_mat),
                  Some (vscale 10 (helix_axis_coords ds ! i)), True)
          \<and> frame_at strands' p2
               = (Some (mat_mul (flip_0_2 (helix_axis_frames ds ! i)) rot_mat),
                  Some (vscale 10 (helix_axis_coords ds ! i)), False)"
    if "i < ?n" for i
  proof -
    have i: "i \<in> set [0..<?n]" using that by simp
    have v: "helix_axis_frames ?ds2 ! i = flip_0_2 (helix_axis_frames ds ! i)"
      "helix_axis_coords ?ds2 ! i = vscale 10 (helix_axis_coords ds ! i)"
      using that lens by simp_all
    from rA [OF i] show ?thesis
      unfolding v by simp
  qed
  have B: "rotations (strands' ! s) ! k = None \<and> translations_of (strands' ! s) ! k = None"
    if "s < length strands \<and> k < length (tour (strands ! s))
          \<and> Some (s, k) \<notin> set (table_slots (base_connectivity ds) strands (id_nt ds))"
    for s k
  proof -
    have "Some (s, k) \<notin> set (table_slots (base_connectivity ?ds2) strands (id_nt ds))"
      using that by simp
    from rB [OF this] have same: "frame_at strands' (s, k) = frame_at strands (s, k)" .
    have "fresh (strands ! s)" using fresh that by simp
    from fresh_arrays(2,3) [OF this, of k] that
    have "rotations (strands ! s) ! k = None" "translations_of (strands ! s) ! k = None"
      by simp_all
    then show ?thesis using same by (simp add: frame_at_def)
  qed
  show ?thesis
    by (rule conjI, (intro allI impI, erule A), (intro allI impI, erule B))
qed


lemma example_slots:
  "slot (base_connectivity example_ds) example_fresh_strands 0 = Some (0, 1)"
  "slot (base_connectivity example_ds) example_fresh_strands 1 = Some (1, 0)"
  "table_slots (base_connectivity example_ds) example_fresh_strands (id_nt example_ds)
     = [Some (0, 1), Some (1, 0)]"
  by (simp_all add: table_slots_def slot_def example_ds_def example_fresh_strands_def
        AtomicStructureStrand_def py_get_def py_index_def)

lemma example_set_strand_data:
  "\<exists>ds' strands'. set_strand_data example_ds example_fresh_strands = (ds', Inr strands')"
  by (simp add: set_strand_data_def example_ds_def example_fresh_strands_def
        AtomicStructureStrand_def pair_step_def set_base_def get_at_def py_get_def py_set_def
        py_index_def Let_def upt_rec)

theorem paired_bases_share_frame_witness:
  "\<exists>ds' strands'.
     set_strand_data example_ds example_fresh_strands = (ds', Inr strands')
     \<and> frame_at strands' (0, 1)
          = (Some (mat_mul (flip_0_2 identity_m) rot_mat), Some (10, 20, 30), True)
     \<and> frame_at strands' (1, 0)
          = (Some (mat_mul (flip_0_2 identity_m) rot_mat), Some (10, 20, 30), False)
     \<and> rotations (strands' ! 0) ! 0 = None
     \<and> translations_of (strands' ! 0) ! 0 = None"
proof -
  obtain ds' strands' where
    run: "set_strand_data example_ds example_fresh_strands = (ds', Inr strands')"
    using example_set_strand_data by blast
  have lens: "length (helix_axis_coords example_ds) = length (id_nt example_ds)"
    "length (helix_axis_frames example_ds) = length (id_nt example_ds)"
    by (simp_all add: example_ds_def)
  have fr: "\<forall>s \<in> set example_fresh_strands. fresh s"
    by (simp add: example_fresh_strands_def fresh_def AtomicStructureStrand_def)
  have pairs: "distinct (table_slots (base_connectivity example_ds) example_fresh_strands
                           (id_nt example_ds))"
    by (simp add: example_slots)
  note t = paired_bases_share_frame [OF run lens fr pairs]
  have i: "0 < length (id_nt example_ds)"
    and e: "id_nt example_ds ! 0 = (0, 1)"
    and v: "helix_axis_frames example_ds ! 0 = identity_m"
      "vscale 10 (helix_axis_coords example_ds ! 0) = (10, 20, 30)"
    by (simp_all add: example_ds_def)
  from t [THEN conjunct1, rule_format, OF i]
  have paired: "frame_at strands' (0, 1)
          = (Some (mat_mul (flip_0_2 identity_m) rot_mat), Some (10, 20, 30), True)
     \<and> frame_at strands' (1, 0)
          = (Some (mat_mul (flip_0_2 identity_m) rot_mat), Some (10, 20, 30), False)"
    unfolding e v fst_conv snd_conv example_slots by simp
  have free: "0 < length example_fresh_strands \<and> 0 < length (tour (example_fresh_strands ! 0))
      \<and> Some (0, 0) \<notin> set (table_slots (base_connectivity example_ds) example_fresh_strands
                                (id_nt example_ds))"
    unfolding example_slots by (simp add: example_fresh_strands_def AtomicStructureStrand_def)
  from t [THEN conjunct2, rule_format, OF free]
  have unset: "rotations (strands' ! 0) ! 0 = None \<and> translations_of (strands' ! 0) ! 0 = None" .
  show ?thesis
    using run paired unset by blast
qed

subsection \<open>Interpolation between two rotations\<close>









lemma transpose_transpose [simp]: "transpose_m (transpose_m A) = A"
  by (cases A rule: transpose_m.cases) simp

lemma mat_mul_identity_left [simp]: "mat_mul identity_m A = A"
  by (cases A rule: transpose_m.cases) (simp add: identity_m_def)

lemma mat_mul_identity_right [simp]: "mat_mul A identity_m = A"
  by (cases A rule: transpose_m.cases) (simp add: identity_m_def)





















subsection \<open>Extraction followed by construction\<close>

text \<open>
  A rotation by \<open>pi - delta\<close> about the negative x axis, with
  \<open>cos delta = 624999999 / 625000001\<close> and \<open>sin delta = 50000 / 625000001\<close>
  (so \<open>delta\<close> is about 0.00008), and the matrix the construction returns for the axis
  and the angle extracted from it.
\<close>

definition near_half_turn_cos :: real where "near_half_turn_cos = 624999999 / 625000001"
definition near_half_turn_sin :: real where "near_half_turn_sin = 50000 / 625000001"

definition near_half_turn :: mat3 where
  "near_half_turn = ((1, 0, 0),
                     (0, - near_half_turn_cos, near_half_turn_sin),
                     (0, - near_half_turn_sin, - near_half_turn_cos))"

definition near_half_turn_rebuilt :: mat3 where
  "near_half_turn_rebuilt = ((1, 0, 0),
                     (0, - near_half_turn_cos, - near_half_turn_sin),
                     (0, near_half_turn_sin, - near_half_turn_cos))"

lemma near_half_turn_unit:
  "near_half_turn_cos\<^sup>2 + near_half_turn_sin\<^sup>2 = 1"
  "0 < near_half_turn_cos" "near_half_turn_cos < 1" "0 < near_half_turn_sin"
  "1 - near_half_turn_cos\<^sup>2 = near_half_turn_sin\<^sup>2"
  by (simp_all add: near_half_turn_cos_def near_half_turn_sin_def power2_eq_square)

lemma sin_small_lower: "(99999 / 1000000000 :: real) \<le> sin (1 / 10000)"
proof -
  have "\<bar>sin (1 / 10000 :: real) - (\<Sum>m<3. sin_coeff m * (1 / 10000) ^ m)\<bar>
          \<le> inverse (fact 3) * \<bar>1 / 10000 :: real\<bar> ^ 3"
    by (rule Maclaurin_sin_bound)
  moreover have "(\<Sum>m<3. sin_coeff m * (1 / 10000 :: real) ^ m) = 1 / 10000"
    by (simp add: sin_coeff_def eval_nat_numeral)
  moreover have "inverse (fact 3) * \<bar>1 / 10000 :: real\<bar> ^ 3 = 1 / 6000000000000"
    by (simp add: fact_numeral power3_eq_cube)
  ultimately have "\<bar>sin (1 / 10000 :: real) - 1 / 10000\<bar> \<le> 1 / 6000000000000"
    by simp
  then show ?thesis by linarith
qed

lemma sin_near_half_turn: "sin (arccos near_half_turn_cos) = near_half_turn_sin"
proof -
  have "sin (arccos near_half_turn_cos) = sqrt (1 - near_half_turn_cos\<^sup>2)"
    using near_half_turn_unit by (intro sin_arccos) simp_all
  also have "\<dots> = sqrt (near_half_turn_sin\<^sup>2)" using near_half_turn_unit by simp
  also have "\<dots> = near_half_turn_sin" using near_half_turn_unit by simp
  finally show ?thesis .
qed

lemma near_half_turn_delta:
  "0 \<le> arccos near_half_turn_cos" "arccos near_half_turn_cos < 1 / 10000"
proof -
  show lo: "0 \<le> arccos near_half_turn_cos"
    using near_half_turn_unit by (intro arccos_lbound) simp_all
  have hi: "arccos near_half_turn_cos \<le> pi / 2"
    using near_half_turn_unit by (intro arccos_le_pi2) simp_all
  have "near_half_turn_sin < (99999 / 1000000000 :: real)"
    by (simp add: near_half_turn_sin_def)
  then have "sin (arccos near_half_turn_cos) < sin (1 / 10000)"
    using sin_small_lower sin_near_half_turn by linarith
  moreover have "- (pi / 2) \<le> arccos near_half_turn_cos" using lo pi_ge_two by linarith
  moreover have "- (pi / 2) \<le> 1 / 10000" "(1 / 10000 :: real) \<le> pi / 2"
    using pi_ge_two by simp_all
  ultimately show "arccos near_half_turn_cos < 1 / 10000"
    using hi sin_mono_less_eq [of "arccos near_half_turn_cos" "1 / 10000"] by simp
qed

lemma near_half_turn_angle:
  "arccos (- near_half_turn_cos) = pi - arccos near_half_turn_cos"
  "cos (arccos (- near_half_turn_cos)) = - near_half_turn_cos"
  "sin (arccos (- near_half_turn_cos)) = near_half_turn_sin"
  "\<not> \<bar>arccos (- near_half_turn_cos)\<bar> < 0.0001"
  "\<bar>arccos (- near_half_turn_cos) - pi\<bar> < 0.0001"
proof -
  show a: "arccos (- near_half_turn_cos) = pi - arccos near_half_turn_cos"
    using near_half_turn_unit by (intro arccos_minus) simp_all
  show "cos (arccos (- near_half_turn_cos)) = - near_half_turn_cos"
    using near_half_turn_unit by (intro cos_arccos) simp_all
  show "sin (arccos (- near_half_turn_cos)) = near_half_turn_sin"
    unfolding a by (simp add: sin_near_half_turn)
  have "\<not> \<bar>pi - arccos near_half_turn_cos\<bar> < 1 / 10000"
    using near_half_turn_delta pi_ge_two by linarith
  then show "\<not> \<bar>arccos (- near_half_turn_cos)\<bar> < 0.0001"
    unfolding a by simp
  have "\<bar>pi - arccos near_half_turn_cos - pi\<bar> < 1 / 10000"
    using near_half_turn_delta by linarith
  then show "\<bar>arccos (- near_half_turn_cos) - pi\<bar> < 0.0001"
    unfolding a by simp
qed

lemma near_half_turn_rotation: "is_rotation near_half_turn"
proof -
  have "near_half_turn_cos * near_half_turn_cos + near_half_turn_sin * near_half_turn_sin = 1"
    using near_half_turn_unit(1) by (simp add: power2_eq_square)
  then show ?thesis
    by (simp add: is_rotation_def near_half_turn_def identity_m_def algebra_simps)
qed

lemma near_half_turn_extracted:
  "vrrotmat2vec (Some near_half_turn) = Inr ((1, 0, 0), arccos (- near_half_turn_cos))"
proof -
  have t: "(trace_m near_half_turn - 1) / 2 = - near_half_turn_cos"
    by (simp add: near_half_turn_def)
  have r: "acos (- near_half_turn_cos) = Inr (arccos (- near_half_turn_cos))"
    using near_half_turn_unit by (simp add: acos_def)
  have d: "(1 - near_half_turn_cos) / 2 < 1"
    using near_half_turn_unit by simp
  have "axis_of near_half_turn (arccos (- near_half_turn_cos))
          = Inr ((1, 0, 0), arccos (- near_half_turn_cos))"
    using near_half_turn_angle(4,5) d by (simp add: near_half_turn_def)
  then show ?thesis
    by (simp only: vrrotmat2vec.simps t r and_then_Inr)
qed

lemma near_half_turn_rebuild:
  "vrrotvec2mat (1, 0, 0) (arccos (- near_half_turn_cos)) = Inr near_half_turn_rebuilt"
  by (simp add: near_half_turn_angle(2,3) near_half_turn_rebuilt_def Let_def)

lemma near_half_turn_check:
  "check_M (1, 0, 0) (arccos (- near_half_turn_cos)) = near_half_turn_rebuilt"
  by (simp add: near_half_turn_angle(2,3) near_half_turn_rebuilt_def Let_def)

lemma near_half_turn_diff:
  "max_abs_diff near_half_turn near_half_turn_rebuilt = 100000 / 625000001"
  by (simp add: max_abs_diff_def near_half_turn_def near_half_turn_rebuilt_def
        near_half_turn_sin_def)

text \<open>
  C9 fails on the code. \<open>near_half_turn\<close> is orthonormal with determinant one and its
  angle is within 0.0001 of \<open>pi\<close>, so \<^verbatim>\<open>_vrrotmat2vec\<close> takes the branch for the
  singularity at 180 degrees. That branch computes the axis from the diagonal and the
  symmetric part of the matrix only, with the positive square root: it returns
  \<open>(1, 0, 0)\<close> where the axis is \<open>(- 1, 0, 0)\<close>. \<^verbatim>\<open>_vrrotvec2mat\<close> then builds the
  rotation by the same angle about the opposite axis, the transpose of the input; the
  entries \<open>[1][2]\<close> and \<open>[2][1]\<close> differ from the input by \<open>2 sin delta\<close>, about
  0.00016, more than 0.0001, and the check at the end of \<^verbatim>\<open>_vrrotmat2vec\<close> itself
  reports \<^verbatim>\<open>WARNING: R-M not zero\<close> on this input.
\<close>

theorem roundtrip_fails_near_pi:
  "is_rotation near_half_turn \<and>
   vrrotmat2vec (Some near_half_turn) = Inr ((1, 0, 0), arccos (- near_half_turn_cos)) \<and>
   vrrotvec2mat (1, 0, 0) (arccos (- near_half_turn_cos)) = Inr near_half_turn_rebuilt \<and>
   max_abs_diff near_half_turn near_half_turn_rebuilt = 100000 / 625000001 \<and>
   0.0001 < max_abs_diff near_half_turn near_half_turn_rebuilt \<and>
   check_warns near_half_turn (1, 0, 0) (arccos (- near_half_turn_cos))"
proof -
  have "(0.0001 :: real) < 100000 / 625000001" by simp
  then show ?thesis
    by (simp only: near_half_turn_rotation near_half_turn_extracted near_half_turn_rebuild
          near_half_turn_diff near_half_turn_check check_warns_def simp_thms)
qed

end
